theory Spec2Isabelle
  imports Main "HOL-Library.AList" "HOL-Library.Sublist"
begin

section \<open>Data model (src/types.ts)\<close>

text \<open>
  TypeScript types are erased at run time, so a lifespan or a model is the string the
  caller passed. A field that may be \<^verbatim>\<open>undefined\<close> is an \<open>option\<close>.
\<close>

type_synonym AgentLifespan = string
type_synonym AgentModel = string

text \<open>
  The values a metadata map can hold (\<^verbatim>\<open>Record<string, unknown>\<close>). An object is the
  list of its members in insertion order. \<open>JUndefined\<close> stands for \<^verbatim>\<open>undefined\<close> and for
  the functions and symbols that \<^verbatim>\<open>JSON.stringify\<close> treats like it. \<open>JNum\<close> is a finite
  number other than \<^verbatim>\<open>-0\<close>, given by an integer: its decimal form reads back as the same
  number. \<open>JNonFinite\<close> is \<^verbatim>\<open>NaN\<close>, \<^verbatim>\<open>Infinity\<close> or \<^verbatim>\<open>-Infinity\<close>. \<open>JCircular\<close> is a
  reference from inside a value back to an object that holds it.
\<close>

datatype jsval =
    JUndefined
  | JNull
  | JBool bool
  | JNum int
  | JNegZero
  | JNonFinite
  | JBigInt int
  | JCircular
  | JStr string
  | JArr "jsval list"
  | JObj "(string \<times> jsval) list"

record RegisteredAgent =
  agentId :: string
  name :: string
  lifespan :: AgentLifespan
  scope :: string
  model :: AgentModel
  createdAt :: string
  lastUsedAt :: string
  turnCount :: nat
  metadata :: "(string \<times> jsval) list"

record AgentFilter =
  filter_lifespan :: "AgentLifespan option"
  filter_scope :: "string option"
  filter_name :: "string option"

text \<open>
  \<^verbatim>\<open>AnyAgentConfig\<close>: the base configuration with the fields of the session, workflow and
  project variants. \<^verbatim>\<open>preload\<close> and \<^verbatim>\<open>systemPrompt\<close> are never read by the registry.
\<close>

record AnyAgentConfig =
  config_lifespan :: "AgentLifespan option"
  config_name :: "string option"
  config_model :: "AgentModel option"
  config_metadata :: "(string \<times> jsval) list option"
  sessionId :: "string option"
  workflowId :: "string option"
  workflowType :: "string option"
  projectPath :: "string option"

record CreateResult =
  agent :: RegisteredAgent
  isNew :: bool

text \<open>
  The errors a call can throw: the two of the registry, with their messages; the
  \<^verbatim>\<open>TypeError\<close> of the runtime (\<^verbatim>\<open>undefined\<close> where a string is needed, a value that
  \<^verbatim>\<open>JSON.stringify\<close> cannot serialize, a path that holds a NUL byte), with a word for its
  cause; and the error of a failed system call, with its code (\<^verbatim>\<open>EISDIR\<close>, \<^verbatim>\<open>ENOTDIR\<close>,
  \<^verbatim>\<open>ENAMETOOLONG\<close>, ...).
\<close>

datatype error =
    InvalidConfigError string
  | AgentNotFoundError string
  | TypeError string
  | SystemError string

text \<open>The process environment read by the registry.\<close>

record Env =
  CLAUDE_SESSION_ID :: "string option"
  cwd :: string

text \<open>
  What the runtime hands out during one call of \<^verbatim>\<open>create\<close>: the result of
  \<^verbatim>\<open>randomUUID()\<close> and the first and second reading of \<^verbatim>\<open>new Date().toISOString()\<close>.
\<close>

record Draw =
  randomUUID :: string
  date1 :: string
  date2 :: string

text \<open>JavaScript truthiness of an optional string: \<^verbatim>\<open>undefined\<close> and \<^verbatim>\<open>''\<close> are falsy.\<close>

definition truthy :: "string option \<Rightarrow> bool" where
  "truthy v = (case v of None \<Rightarrow> False | Some s \<Rightarrow> s \<noteq> [])"

section \<open>JSON documents\<close>

text \<open>
  \<open>json_value v\<close> is the value \<^verbatim>\<open>JSON.parse(JSON.stringify(v))\<close> yields: a member whose
  value is \<^verbatim>\<open>undefined\<close> is dropped from an object, \<^verbatim>\<open>undefined\<close> in an array becomes
  \<^verbatim>\<open>null\<close>, a number that is not finite becomes \<^verbatim>\<open>null\<close>, and \<^verbatim>\<open>-0\<close> becomes \<^verbatim>\<open>0\<close>.
  \<^verbatim>\<open>JSON.stringify\<close> throws a \<^verbatim>\<open>TypeError\<close> on a BigInt and on a circular structure:
  \<open>serializable\<close> says that neither occurs.
\<close>

fun json_value :: "jsval \<Rightarrow> jsval" where
  "json_value (JArr vs) = JArr (map (\<lambda>v. if v = JUndefined then JNull else json_value v) vs)"
| "json_value (JObj kvs) =
     JObj (map (\<lambda>(k, v). (k, json_value v)) (filter (\<lambda>(k, v). v \<noteq> JUndefined) kvs))"
| "json_value JNegZero = JNum 0"
| "json_value JNonFinite = JNull"
| "json_value v = v"

definition json_members :: "(string \<times> jsval) list \<Rightarrow> (string \<times> jsval) list" where
  "json_members kvs = map (\<lambda>(k, v). (k, json_value v)) (filter (\<lambda>(k, v). v \<noteq> JUndefined) kvs)"

fun serializable :: "jsval \<Rightarrow> bool" where
  "serializable (JBigInt n) = False"
| "serializable JCircular = False"
| "serializable (JArr vs) = list_all serializable vs"
| "serializable (JObj kvs) = list_all (\<lambda>(k, v). serializable v) kvs"
| "serializable v = True"

text \<open>
  A value is JSON-representable when it is made of \<^verbatim>\<open>null\<close>, booleans, finite numbers other
  than \<^verbatim>\<open>-0\<close>, strings, arrays and objects, nested to any depth.
\<close>

fun representable :: "jsval \<Rightarrow> bool" where
  "representable JUndefined = False"
| "representable JNegZero = False"
| "representable JNonFinite = False"
| "representable (JBigInt n) = False"
| "representable JCircular = False"
| "representable (JArr vs) = list_all representable vs"
| "representable (JObj kvs) = list_all (\<lambda>(k, v). representable v) kvs"
| "representable v = True"

text \<open>
  The content of a file. The text that \<^verbatim>\<open>JSON.stringify\<close> writes for a record is
  represented by the record that \<^verbatim>\<open>JSON.parse\<close> reads back from it; every text that
  \<^verbatim>\<open>JSON.parse\<close> rejects is \<open>Malformed\<close>. A text that parses to something other than a
  record is not represented.
\<close>

datatype file_content = JsonText RegisteredAgent | Malformed string

definition JSON_stringify :: "RegisteredAgent \<Rightarrow> error + file_content" where
  "JSON_stringify a =
     (if serializable (JObj (metadata a))
      then Inr (JsonText (a\<lparr>metadata := json_members (metadata a)\<rparr>))
      else Inl (TypeError ''JSON.stringify cannot serialize the value''))"

definition JSON_parse :: "file_content \<Rightarrow> RegisteredAgent option" where
  "JSON_parse content = (case content of JsonText a \<Rightarrow> Some a | Malformed text \<Rightarrow> None)"

section \<open>Paths and the file system (node:path, node:fs)\<close>

text \<open>
  A path is the list of its segments after normalisation. \<open>normalizeString\<close> follows
  the POSIX \<^verbatim>\<open>path.normalize\<close>: empty segments and \<^verbatim>\<open>.\<close> vanish, \<^verbatim>\<open>..\<close> removes the
  segment before it. \<open>join\<close> skips empty arguments, as \<^verbatim>\<open>path.join\<close> does.
\<close>

type_synonym path = "string list"

fun split_sep :: "string \<Rightarrow> string list" where
  "split_sep [] = [[]]"
| "split_sep (c # cs) =
     (if c = CHR ''/'' then [] # split_sep cs
      else (case split_sep cs of [] \<Rightarrow> [[c]] | s # ss \<Rightarrow> (c # s) # ss))"

fun normalizeString :: "bool \<Rightarrow> path \<Rightarrow> string list \<Rightarrow> path" where
  "normalizeString allowAboveRoot res [] = res"
| "normalizeString allowAboveRoot res (seg # segs) =
     (if seg = [] \<or> seg = ''.'' then normalizeString allowAboveRoot res segs
      else if seg = ''..'' then
        (if res \<noteq> [] \<and> last res \<noteq> ''..''
         then normalizeString allowAboveRoot (butlast res) segs
         else if allowAboveRoot then normalizeString allowAboveRoot (res @ [''..'']) segs
         else normalizeString allowAboveRoot res segs)
      else normalizeString allowAboveRoot (res @ [seg]) segs)"

definition isAbsolute :: "string \<Rightarrow> bool" where
  "isAbsolute p = (case p of [] \<Rightarrow> False | c # cs \<Rightarrow> c = CHR ''/'')"

definition join :: "string list \<Rightarrow> path" where
  "join paths =
     (let args = filter (\<lambda>s. s \<noteq> []) paths in
      normalizeString (case args of [] \<Rightarrow> True | a # as \<Rightarrow> \<not> isAbsolute a) []
        (concat (map split_sep args)))"

definition dirname :: "path \<Rightarrow> path" where
  "dirname p = butlast p"

text \<open>
  The file system is the list of its entries, each under its path: the files with their
  content, and the directories that hold nothing. A directory that holds an entry needs no
  entry of its own: it exists as long as an entry lies below it. Of the calls below,
  only a \<^verbatim>\<open>save\<close> that throws leaves an empty directory on record. A directory emptied by
  \<^verbatim>\<open>deleteMany\<close> is a scope directory, which \<^verbatim>\<open>cleanEmptyDirs\<close> removes before the call
  returns, or the project directory. The three lifespan directories, which the
  constructor of a store makes, are not recorded while they are empty: no document is
  named like one of them, and no call tells an empty lifespan directory from a missing
  one. Permissions, a full disk, symbolic links and other processes are outside the
  model.
\<close>

datatype node = File file_content | Directory

type_synonym filesystem = "(path \<times> node) list"

definition existsSync :: "filesystem \<Rightarrow> path \<Rightarrow> bool" where
  "existsSync fs p = (\<exists>q \<in> set (map fst fs). prefix p q)"

definition isDirectory :: "filesystem \<Rightarrow> path \<Rightarrow> bool" where
  "isDirectory fs p = ((\<exists>q \<in> set (map fst fs). strict_prefix p q) \<or> map_of fs p = Some Directory)"

definition is_file :: "filesystem \<Rightarrow> path \<Rightarrow> bool" where
  "is_file fs p = (case map_of fs p of Some (File content) \<Rightarrow> True | _ \<Rightarrow> False)"

definition readdirSync :: "filesystem \<Rightarrow> path \<Rightarrow> string list" where
  "readdirSync fs d = remdups (map (\<lambda>q. q ! length d) (filter (strict_prefix d) (map fst fs)))"

text \<open>A read of a path that holds no file is \<open>None\<close>: the call throws.\<close>

definition readFileSync :: "filesystem \<Rightarrow> path \<Rightarrow> file_content option" where
  "readFileSync fs p = (case map_of fs p of Some (File content) \<Rightarrow> Some content | _ \<Rightarrow> None)"

text \<open>
  The limits of the system on a path (the values of Linux): a segment has at most
  \<open>NAME_MAX\<close> bytes, and the whole path, with its separators and the byte that ends it,
  at most \<open>PATH_MAX\<close>. A string stands for the bytes of its UTF-8 form. The flag says
  whether the path is absolute. Every call of \<^verbatim>\<open>node:fs\<close> that writes first refuses a path
  with a NUL byte; the system call refuses a path that is too long.
\<close>

definition NAME_MAX :: nat where
  "NAME_MAX = 255"

definition PATH_MAX :: nat where
  "PATH_MAX = 4096"

definition path_string_length :: "bool \<Rightarrow> path \<Rightarrow> nat" where
  "path_string_length absolute p =
     (if absolute then 1 else 0) + sum_list (map length p) + (length p - 1)"

definition path_throws :: "bool \<Rightarrow> path \<Rightarrow> error option" where
  "path_throws absolute p =
     (if list_ex (\<lambda>seg. CHR 0x00 \<in> set seg) p then Some (TypeError ''ERR_INVALID_ARG_VALUE'')
      else if PATH_MAX \<le> path_string_length absolute p then Some (SystemError ''ENAMETOOLONG'')
      else None)"

text \<open>
  The walk of the system along the segments of a directory path, from \<open>at\<close> on: it stops
  at a segment that is too long and at a segment that is a file. It returns the error
  and the directory it has reached.
\<close>

fun walk :: "filesystem \<Rightarrow> path \<Rightarrow> string list \<Rightarrow> error option \<times> path" where
  "walk fs at [] = (None, at)"
| "walk fs at (seg # segs) =
     (if NAME_MAX < length seg then (Some (SystemError ''ENAMETOOLONG''), at)
      else if is_file fs (at @ [seg]) then (Some (SystemError ''ENOTDIR''), at)
      else walk fs (at @ [seg]) segs)"

text \<open>
  \<^verbatim>\<open>mkdirSync(d, { recursive: true })\<close>: the directories along \<open>d\<close> are made one after the
  other. When the call throws, those made before the failing segment stay; the deepest
  of them is recorded, as a directory that holds nothing.
\<close>

definition mkdirSync :: "bool \<Rightarrow> filesystem \<Rightarrow> path \<Rightarrow> error option \<times> filesystem" where
  "mkdirSync absolute fs d =
     (case path_throws absolute d of
        Some e \<Rightarrow> (Some e, fs)
      | None \<Rightarrow>
          if is_file fs d then (Some (SystemError ''EEXIST''), fs)
          else (case walk fs [] d of
                  (e, made) \<Rightarrow>
                    (e, if made = [] \<or> existsSync fs made then fs else fs @ [(made, Directory)])))"

text \<open>
  \<^verbatim>\<open>writeFileSync\<close>: \<open>writeFileSync_throws\<close> is the error of the call, if it throws, and
  \<open>writeFileSync\<close> the state after a call that returned. The call throws when a segment
  is too long, when a directory on the way is a file or is missing, and when the path
  itself is a directory. \<^verbatim>\<open>unlinkSync\<close> likewise: the call throws on a directory and on a
  path that holds nothing.
\<close>

definition writeFileSync_throws :: "bool \<Rightarrow> filesystem \<Rightarrow> path \<Rightarrow> error option" where
  "writeFileSync_throws absolute fs p =
     (case path_throws absolute p of
        Some e \<Rightarrow> Some e
      | None \<Rightarrow>
          (case walk fs [] (dirname p) of
             (Some e, at) \<Rightarrow> Some e
           | (None, at) \<Rightarrow>
               if p = [] then Some (SystemError ''EISDIR'')
               else if \<not> (dirname p = [] \<or> existsSync fs (dirname p))
                 then Some (SystemError ''ENOENT'')
               else if NAME_MAX < length (last p) then Some (SystemError ''ENAMETOOLONG'')
               else if isDirectory fs p then Some (SystemError ''EISDIR'')
               else None))"

definition writeFileSync :: "filesystem \<Rightarrow> path \<Rightarrow> file_content \<Rightarrow> filesystem" where
  "writeFileSync fs p content = AList.update p (File content) fs"


definition unlinkSync :: "filesystem \<Rightarrow> path \<Rightarrow> filesystem" where
  "unlinkSync fs p = AList.delete p fs"


definition endsWith :: "string \<Rightarrow> string \<Rightarrow> bool" where
  "endsWith s sfx = suffix sfx s"

section \<open>The volatile backend (src/storage/memory.ts)\<close>

text \<open>
  \<open>agents\<close> is the \<^verbatim>\<open>Map\<close> from id to record, in insertion order (setting a key that is
  present keeps its place); \<open>nameIndex\<close> is the \<^verbatim>\<open>Map\<close> from \<^verbatim>\<open>name:scope\<close> to id.
\<close>

record MemoryStorage =
  agents :: "(string \<times> RegisteredAgent) list"
  nameIndex :: "string \<rightharpoonup> string"

definition getNameKey :: "string \<Rightarrow> string \<Rightarrow> string" where
  "getNameKey nm sc = nm @ '':'' @ sc"

definition MemoryStorage_save :: "MemoryStorage \<Rightarrow> RegisteredAgent \<Rightarrow> MemoryStorage" where
  "MemoryStorage_save m a =
     m\<lparr>agents := AList.update (agentId a) a (agents m),
       nameIndex := (nameIndex m)(getNameKey (name a) (scope a) \<mapsto> agentId a)\<rparr>"

definition MemoryStorage_load :: "MemoryStorage \<Rightarrow> string \<Rightarrow> RegisteredAgent option" where
  "MemoryStorage_load m aid = map_of (agents m) aid"

definition MemoryStorage_findByNameAndScope ::
  "MemoryStorage \<Rightarrow> string \<Rightarrow> string \<Rightarrow> RegisteredAgent option" where
  "MemoryStorage_findByNameAndScope m nm sc =
     (case nameIndex m (getNameKey nm sc) of
        None \<Rightarrow> None
      | Some aid \<Rightarrow> if aid = [] then None else map_of (agents m) aid)"


definition MemoryStorage_matchesFilter :: "RegisteredAgent \<Rightarrow> AgentFilter \<Rightarrow> bool" where
  "MemoryStorage_matchesFilter a flt =
     (if truthy (filter_lifespan flt) \<and> Some (lifespan a) \<noteq> filter_lifespan flt then False
      else if truthy (filter_scope flt) \<and> Some (scope a) \<noteq> filter_scope flt then False
      else if truthy (filter_name flt) \<and> Some (name a) \<noteq> filter_name flt then False
      else True)"


definition MemoryStorage_list :: "MemoryStorage \<Rightarrow> AgentFilter option \<Rightarrow> RegisteredAgent list" where
  "MemoryStorage_list m flt =
     map snd (filter (\<lambda>(k, a). case flt of None \<Rightarrow> True
                                  | Some f \<Rightarrow> MemoryStorage_matchesFilter a f) (agents m))"

section \<open>The durable backend (src/storage/file.ts)\<close>

text \<open>
  \<^verbatim>\<open>createFileStorages\<close> builds one store for each of \<^verbatim>\<open>session\<close>, \<^verbatim>\<open>workflow\<close> and
  \<^verbatim>\<open>project\<close>; the lifespan of a store is one of these three, so the \<^verbatim>\<open>default\<close> branches
  of the path functions are never taken.
\<close>

datatype DurableLifespan = Session | Workflow | Project

fun lifespan_name :: "DurableLifespan \<Rightarrow> string" where
  "lifespan_name Session = ''session''"
| "lifespan_name Workflow = ''workflow''"
| "lifespan_name Project = ''project''"

record FileStorageConfig =
  basePath :: string
  storage_lifespan :: DurableLifespan

definition getAgentPath :: "FileStorageConfig \<Rightarrow> RegisteredAgent \<Rightarrow> path" where
  "getAgentPath cfg a =
     (case storage_lifespan cfg of
        Session \<Rightarrow> join [basePath cfg, ''session'', scope a, name a @ ''.json'']
      | Workflow \<Rightarrow> join [basePath cfg, ''workflow'', scope a, name a @ ''.json'']
      | Project \<Rightarrow> join [basePath cfg, ''project'', name a @ ''.json''])"

definition getAgentPathByNameAndScope :: "FileStorageConfig \<Rightarrow> string \<Rightarrow> string \<Rightarrow> path" where
  "getAgentPathByNameAndScope cfg nm sc =
     (case storage_lifespan cfg of
        Session \<Rightarrow> join [basePath cfg, ''session'', sc, nm @ ''.json'']
      | Workflow \<Rightarrow> join [basePath cfg, ''workflow'', sc, nm @ ''.json'']
      | Project \<Rightarrow> join [basePath cfg, ''project'', nm @ ''.json''])"

text \<open>
  \<^verbatim>\<open>save\<close> returns the error it throws, if any, with the state it leaves. The directory
  is made when it is missing; then the record is serialized; then the file is written.
  When the call throws after the directory was made, the directory stays behind, empty
  (\<open>fs1\<close>). When the file is written, the directory holds it and needs no entry of
  its own, so the state is \<open>fs\<close> with the file.
\<close>

definition FileStorage_save ::
  "FileStorageConfig \<Rightarrow> filesystem \<Rightarrow> RegisteredAgent \<Rightarrow> error option \<times> filesystem" where
  "FileStorage_save cfg fs a =
     (let p = getAgentPath cfg a;
          dir = dirname p;
          absolute = isAbsolute (basePath cfg)
      in case (if \<not> existsSync fs dir then mkdirSync absolute fs dir else (None, fs)) of
           (Some e, fs1) \<Rightarrow> (Some e, fs1)
         | (None, fs1) \<Rightarrow>
             (case JSON_stringify a of
                Inl e \<Rightarrow> (Some e, fs1)
              | Inr content \<Rightarrow>
                  (case writeFileSync_throws absolute fs1 p of
                     Some e \<Rightarrow> (Some e, fs1)
                   | None \<Rightarrow> (None, writeFileSync fs p content))))"

definition FileStorage_findByNameAndScope ::
  "FileStorageConfig \<Rightarrow> filesystem \<Rightarrow> string \<Rightarrow> string \<Rightarrow> RegisteredAgent option" where
  "FileStorage_findByNameAndScope cfg fs nm sc =
     (let p = getAgentPathByNameAndScope cfg nm sc in
      if \<not> existsSync fs p then None
      else (case readFileSync fs p of
              None \<Rightarrow> None
            | Some content \<Rightarrow> JSON_parse content))"

definition FileStorage_matchesFilter :: "RegisteredAgent \<Rightarrow> AgentFilter \<Rightarrow> bool" where
  "FileStorage_matchesFilter a flt =
     (if truthy (filter_lifespan flt) \<and> Some (lifespan a) \<noteq> filter_lifespan flt then False
      else if truthy (filter_scope flt) \<and> Some (scope a) \<noteq> filter_scope flt then False
      else if truthy (filter_name flt) \<and> Some (name a) \<noteq> filter_name flt then False
      else True)"

text \<open>
  The loop over the files of one directory: a file that cannot be read or parsed is
  skipped (the \<^verbatim>\<open>catch\<close> block is empty). For the name of a directory entry, which is
  a single segment, \<^verbatim>\<open>join(dir, entry)\<close> is \<open>dir @ [entry]\<close>; this holds for the files
  here and for the scope directories in \<open>FileStorage_list\<close>.
\<close>

fun read_agents ::
  "filesystem \<Rightarrow> path \<Rightarrow> AgentFilter option \<Rightarrow> string list \<Rightarrow> RegisteredAgent list" where
  "read_agents fs dir flt [] = []"
| "read_agents fs dir flt (file # files) =
     (case readFileSync fs (dir @ [file]) of
        None \<Rightarrow> read_agents fs dir flt files
      | Some content \<Rightarrow>
          (case JSON_parse content of
             None \<Rightarrow> read_agents fs dir flt files
           | Some a \<Rightarrow>
               (if (case flt of None \<Rightarrow> True | Some f \<Rightarrow> FileStorage_matchesFilter a f)
                then a # read_agents fs dir flt files
                else read_agents fs dir flt files)))"

definition FileStorage_list ::
  "FileStorageConfig \<Rightarrow> filesystem \<Rightarrow> AgentFilter option \<Rightarrow> RegisteredAgent list" where
  "FileStorage_list cfg fs flt =
     (let lifespanDir = join [basePath cfg, lifespan_name (storage_lifespan cfg)] in
      if \<not> existsSync fs lifespanDir then []
      else if storage_lifespan cfg = Project then
        read_agents fs lifespanDir flt
          (filter (\<lambda>f. endsWith f ''.json'') (readdirSync fs lifespanDir))
      else
        concat (map (\<lambda>scopeDir.
                  read_agents fs (lifespanDir @ [scopeDir]) flt
                    (filter (\<lambda>f. endsWith f ''.json'')
                       (readdirSync fs (lifespanDir @ [scopeDir]))))
               (filter (\<lambda>d. isDirectory fs (lifespanDir @ [d]))
                  (readdirSync fs lifespanDir))))"




section \<open>The registry (src/registry.ts)\<close>

text \<open>
  The state of a registry: the process-wide volatile store and the directory tree that
  its three file stores share. The logger is an observer and takes no part in the state.
\<close>

record Registry =
  storagePath :: string
  memoryStorage :: MemoryStorage
  disk :: filesystem

definition fileStorages :: "Registry \<Rightarrow> DurableLifespan \<Rightarrow> FileStorageConfig" where
  "fileStorages reg ls = \<lparr>basePath = storagePath reg, storage_lifespan = ls\<rparr>"

datatype StorageRef = MemoryRef | FileRef DurableLifespan

definition getStorage :: "AgentLifespan option \<Rightarrow> error + StorageRef" where
  "getStorage ls =
     (if ls = Some ''ephemeral'' \<or> ls = Some ''turn'' \<or> ls = Some ''context'' then Inr MemoryRef
      else if ls = Some ''session'' then Inr (FileRef Session)
      else if ls = Some ''workflow'' then Inr (FileRef Workflow)
      else if ls = Some ''project'' then Inr (FileRef Project)
      else Inl (InvalidConfigError
                 (''Unknown lifespan: '' @ (case ls of None \<Rightarrow> ''undefined'' | Some l \<Rightarrow> l))))"

definition storage_findByNameAndScope ::
  "Registry \<Rightarrow> StorageRef \<Rightarrow> string \<Rightarrow> string \<Rightarrow> RegisteredAgent option" where
  "storage_findByNameAndScope reg storage nm sc =
     (case storage of
        MemoryRef \<Rightarrow> MemoryStorage_findByNameAndScope (memoryStorage reg) nm sc
      | FileRef ls \<Rightarrow> FileStorage_findByNameAndScope (fileStorages reg ls) (disk reg) nm sc)"

text \<open>\<^verbatim>\<open>storage.save\<close>: the error it throws, if any, and the state it leaves.\<close>

definition storage_save ::
  "Registry \<Rightarrow> StorageRef \<Rightarrow> RegisteredAgent \<Rightarrow> error option \<times> Registry" where
  "storage_save reg storage a =
     (case storage of
        MemoryRef \<Rightarrow> (None, reg\<lparr>memoryStorage := MemoryStorage_save (memoryStorage reg) a\<rparr>)
      | FileRef ls \<Rightarrow>
          (case FileStorage_save (fileStorages reg ls) (disk reg) a of
             (r, fs') \<Rightarrow> (r, reg\<lparr>disk := fs'\<rparr>)))"

text \<open>\<open>None\<close> is \<^verbatim>\<open>undefined\<close>: the workflow identifier of a configuration that has none.\<close>

definition getScope :: "Env \<Rightarrow> AnyAgentConfig \<Rightarrow> string option" where
  "getScope env config =
     (case config_lifespan config of
        None \<Rightarrow> Some ''unknown''
      | Some l \<Rightarrow>
          if l = ''ephemeral'' then Some ''ephemeral''
          else if l = ''turn'' then
            Some (case CLAUDE_SESSION_ID env of Some s \<Rightarrow> s | None \<Rightarrow> ''turn'')
          else if l = ''context'' then
            Some (case CLAUDE_SESSION_ID env of Some s \<Rightarrow> s | None \<Rightarrow> ''context'')
          else if l = ''session'' then
            Some (case sessionId config of
                    Some s \<Rightarrow> s
                  | None \<Rightarrow> (case CLAUDE_SESSION_ID env of
                               Some s \<Rightarrow> s
                             | None \<Rightarrow> ''unknown-session''))
          else if l = ''workflow'' then workflowId config
          else if l = ''project'' then
            Some (case projectPath config of Some p \<Rightarrow> p | None \<Rightarrow> cwd env)
          else Some ''unknown'')"

definition validateConfig :: "AnyAgentConfig \<Rightarrow> error option" where
  "validateConfig config =
     (if \<not> truthy (config_name config) then
        Some (InvalidConfigError ''Agent name is required'')
      else if \<not> truthy (config_lifespan config) then
        Some (InvalidConfigError ''Agent lifespan is required'')
      else if config_lifespan config = Some ''workflow'' \<and> \<not> truthy (workflowId config) then
        Some (InvalidConfigError ''workflowId is required for workflow-scoped agents'')
      else None)"

definition new_agent ::
  "Draw \<Rightarrow> AnyAgentConfig \<Rightarrow> string \<Rightarrow> AgentLifespan \<Rightarrow> string \<Rightarrow> RegisteredAgent" where
  "new_agent d config nm ls sc =
     (let md = (case config_metadata config of Some m \<Rightarrow> m | None \<Rightarrow> []) in
      \<lparr>agentId = randomUUID d,
       name = nm,
       lifespan = ls,
       scope = sc,
       model = (case config_model config of Some m \<Rightarrow> m | None \<Rightarrow> ''haiku''),
       createdAt = date1 d,
       lastUsedAt = date2 d,
       turnCount = 0,
       metadata =
         (if ls = ''workflow''
          then AList.update ''workflowType''
                 (case workflowType config of Some t \<Rightarrow> JStr t | None \<Rightarrow> JUndefined) md
          else md)\<rparr>)"

text \<open>
  \<^verbatim>\<open>create\<close> returns its result, or the error it throws, with the state it leaves; an
  error of \<^verbatim>\<open>save\<close> is passed on. Once \<open>validateConfig\<close> and \<open>getStorage\<close> have passed,
  the name, the lifespan and the scope are strings; the last branch stands for the
  impossible rest.
\<close>

definition create ::
  "Env \<Rightarrow> Draw \<Rightarrow> Registry \<Rightarrow> AnyAgentConfig \<Rightarrow> (error + CreateResult) \<times> Registry" where
  "create env d reg config =
     (case validateConfig config of
        Some e \<Rightarrow> (Inl e, reg)
      | None \<Rightarrow>
          (let sc_opt = getScope env config in
           case getStorage (config_lifespan config) of
             Inl e \<Rightarrow> (Inl e, reg)
           | Inr storage \<Rightarrow>
               (case (config_name config, config_lifespan config, sc_opt) of
                  (Some nm, Some ls, Some sc) \<Rightarrow>
                    (case storage_findByNameAndScope reg storage nm sc of
                       Some existing \<Rightarrow>
                         (let existing' = existing\<lparr>lastUsedAt := date1 d\<rparr> in
                          case storage_save reg storage existing' of
                            (Some e, reg') \<Rightarrow> (Inl e, reg')
                          | (None, reg') \<Rightarrow> (Inr \<lparr>agent = existing', isNew = False\<rparr>, reg'))
                     | None \<Rightarrow>
                         (let a = new_agent d config nm ls sc in
                          case storage_save reg storage a of
                            (Some e, reg') \<Rightarrow> (Inl e, reg')
                          | (None, reg') \<Rightarrow> (Inr \<lparr>agent = a, isNew = True\<rparr>, reg')))
                | _ \<Rightarrow> (Inl (TypeError ''undefined''), reg))))"

definition getDefaultScope :: "Env \<Rightarrow> AgentLifespan \<Rightarrow> string" where
  "getDefaultScope env l =
     (if l = ''ephemeral'' then ''ephemeral''
      else if l = ''turn'' then (case CLAUDE_SESSION_ID env of Some s \<Rightarrow> s | None \<Rightarrow> ''turn'')
      else if l = ''context'' then (case CLAUDE_SESSION_ID env of Some s \<Rightarrow> s | None \<Rightarrow> ''context'')
      else if l = ''session'' then
        (case CLAUDE_SESSION_ID env of Some s \<Rightarrow> s | None \<Rightarrow> ''unknown-session'')
      else if l = ''workflow'' then []
      else if l = ''project'' then cwd env
      else ''unknown'')"

text \<open>The loop of \<^verbatim>\<open>resume\<close> over the tiers; \<open>now\<close> is the reading of the clock.\<close>

fun resume_probe ::
  "Env \<Rightarrow> string \<Rightarrow> Registry \<Rightarrow> string \<Rightarrow> string option \<Rightarrow> (AgentLifespan \<times> StorageRef) list
     \<Rightarrow> (error + RegisteredAgent) \<times> Registry" where
  "resume_probe env now reg nm sc [] = (Inl (AgentNotFoundError nm), reg)"
| "resume_probe env now reg nm sc ((l, storage) # rest) =
     (let searchScope = (case sc of Some s \<Rightarrow> s | None \<Rightarrow> getDefaultScope env l) in
      case storage_findByNameAndScope reg storage nm searchScope of
        Some a \<Rightarrow>
          (let a' = a\<lparr>lastUsedAt := now, turnCount := turnCount a + 1\<rparr> in
           case storage_save reg storage a' of
             (Some e, reg') \<Rightarrow> (Inl e, reg')
           | (None, reg') \<Rightarrow> (Inr a', reg'))
      | None \<Rightarrow> resume_probe env now reg nm sc rest)"

definition resume ::
  "Env \<Rightarrow> string \<Rightarrow> Registry \<Rightarrow> string \<Rightarrow> string option \<Rightarrow> (error + RegisteredAgent) \<times> Registry" where
  "resume env now reg nm sc =
     resume_probe env now reg nm sc
       [(''turn'', MemoryRef), (''context'', MemoryRef), (''session'', FileRef Session),
        (''workflow'', FileRef Workflow), (''project'', FileRef Project)]"

definition scope_filter :: "string \<Rightarrow> AgentFilter" where
  "scope_filter sc = \<lparr>filter_lifespan = None, filter_scope = Some sc, filter_name = None\<rparr>"




section \<open>Concrete inputs\<close>

text \<open>A fresh registry at the default storage path, an environment, and configurations.\<close>

definition fresh_registry :: Registry where
  "fresh_registry =
     \<lparr>storagePath = ''.agent/agents'',
      memoryStorage = \<lparr>agents = [], nameIndex = Map.empty\<rparr>,
      disk = []\<rparr>"

definition plain_env :: Env where
  "plain_env = \<lparr>CLAUDE_SESSION_ID = None, cwd = ''/work''\<rparr>"

definition session_env :: Env where
  "session_env = \<lparr>CLAUDE_SESSION_ID = Some ''S-ambient'', cwd = ''/work''\<rparr>"

definition draw_a :: Draw where
  "draw_a = \<lparr>randomUUID = ''uuid-a'', date1 = ''2025-01-01T00:00:00.000Z'',
              date2 = ''2025-01-01T00:00:00.001Z''\<rparr>"



definition config_of :: "AgentLifespan \<Rightarrow> string \<Rightarrow> AnyAgentConfig" where
  "config_of ls nm =
     \<lparr>config_lifespan = Some ls, config_name = Some nm, config_model = None,
      config_metadata = None, sessionId = None, workflowId = None, workflowType = None,
      projectPath = None\<rparr>"

definition workflow_config :: "string \<Rightarrow> string \<Rightarrow> AnyAgentConfig" where
  "workflow_config wid nm = (config_of ''workflow'' nm)\<lparr>workflowId := Some wid\<rparr>"


definition sample_agent :: RegisteredAgent where
  "sample_agent =
     \<lparr>agentId = ''uuid-s'', name = ''shadow'', lifespan = ''session'', scope = ''S1'',
      model = ''haiku'', createdAt = ''2025-01-01T00:00:00.000Z'',
      lastUsedAt = ''2025-01-01T00:00:00.000Z'', turnCount = 0,
      metadata = [(''role'', JStr ''advisor''),
                  (''tags'', JArr [JStr ''a'', JObj [(''depth'', JNum 2), (''ok'', JBool True)]])]\<rparr>"




text \<open>
  A name longer than a segment may be, and the registry after a workflow record named
  \<open>a.json/b\<close> was created under \<open>W\<close>: there \<^verbatim>\<open>workflow/W/a.json\<close> is a directory.
\<close>

definition long_name :: string where
  "long_name = replicate 300 CHR ''n''"

definition blocked_registry :: Registry where
  "blocked_registry =
     snd (create plain_env draw_a fresh_registry (workflow_config ''W'' ''a.json/b''))"

section \<open>Predicates of the statements\<close>

text \<open>
  The configurations that must be rejected: no name or an empty one, no lifespan, a
  lifespan that is not one of the six, or lifespan \<^verbatim>\<open>workflow\<close> without a workflow identifier.
\<close>

definition recognized_lifespans :: "AgentLifespan list" where
  "recognized_lifespans =
     [''ephemeral'', ''turn'', ''context'', ''session'', ''workflow'', ''project'']"

definition invalid_config :: "AnyAgentConfig \<Rightarrow> bool" where
  "invalid_config c =
     (config_name c = None \<or> config_name c = Some []
      \<or> config_lifespan c = None
      \<or> (\<exists>l. config_lifespan c = Some l \<and> l \<notin> set recognized_lifespans)
      \<or> (config_lifespan c = Some ''workflow'' \<and> \<not> truthy (workflowId c)))"

text \<open>
  A single path segment: what a name or a scope must be for \<^verbatim>\<open>path.join\<close> to keep it as
  one directory level.
\<close>

definition plain :: "string \<Rightarrow> bool" where
  "plain s = (s \<noteq> [] \<and> s \<noteq> ''.'' \<and> s \<noteq> ''..'' \<and> CHR ''/'' \<notin> set s)"

definition storage_root :: "string \<Rightarrow> path" where
  "storage_root base = join [base]"

text \<open>
  The layout the file stores write for names and scopes that are single segments: every
  entry is a file \<^verbatim>\<open>session/<scope>/<name>.json\<close>, \<^verbatim>\<open>workflow/<scope>/<name>.json\<close> or
  \<^verbatim>\<open>project/<name>.json\<close> under the storage root, and a document lies at the place that
  its own name and scope give. A file need not parse. No directory is left empty.
\<close>

definition well_placed :: "string \<Rightarrow> path \<times> node \<Rightarrow> bool" where
  "well_placed base entry =
     (case entry of
        (p, Directory) \<Rightarrow> False
      | (p, File content) \<Rightarrow>
        take (length (storage_root base)) p = storage_root base \<and>
        (case drop (length (storage_root base)) p of
           [d, f] \<Rightarrow>
             d = ''project'' \<and> plain f \<and> endsWith f ''.json'' \<and>
             (case content of JsonText a \<Rightarrow> f = name a @ ''.json'' | Malformed t \<Rightarrow> True)
         | [d, s, f] \<Rightarrow>
             (d = ''session'' \<or> d = ''workflow'') \<and> plain s \<and> plain f \<and> endsWith f ''.json'' \<and>
             (case content of JsonText a \<Rightarrow> s = scope a \<and> f = name a @ ''.json''
                            | Malformed t \<Rightarrow> True)
         | _ \<Rightarrow> False))"

definition disk_ok :: "string \<Rightarrow> filesystem \<Rightarrow> bool" where
  "disk_ok base fs = (distinct (map fst fs) \<and> list_all (well_placed base) fs)"

text \<open>
  The volatile store as \<^verbatim>\<open>save\<close> and \<^verbatim>\<open>delete\<close> keep it: every record is stored once,
  under its own non-empty id, and the index leads from its name and scope to that id.
\<close>

definition memory_ok :: "MemoryStorage \<Rightarrow> bool" where
  "memory_ok m =
     (distinct (map fst (agents m)) \<and>
      list_all (\<lambda>(k, a). k \<noteq> [] \<and> agentId a = k \<and>
                          nameIndex m (getNameKey (name a) (scope a)) = Some k) (agents m))"


definition in_tier :: "string \<Rightarrow> DurableLifespan \<Rightarrow> path \<Rightarrow> bool" where
  "in_tier base ls p = prefix (join [base, lifespan_name ls]) p"

text \<open>A session directory that holds one document and one file that does not parse.\<close>

definition damaged_disk :: filesystem where
  "damaged_disk =
     [([''.agent'', ''agents'', ''session'', ''S1'', ''shadow.json''], File (JsonText sample_agent)),
      ([''.agent'', ''agents'', ''session'', ''S1'', ''broken.json''],
       File (Malformed ''{ agentId: uuid-''))]"

text \<open>
  What lets a file store write the document of a name and a scope: the tree has the
  layout, the name holds no separator, the scope of a session or workflow record is a
  single segment, and the path of the document is within the limits of the system.
\<close>

definition fits :: "bool \<Rightarrow> path \<Rightarrow> bool" where
  "fits absolute p =
     (list_all (\<lambda>seg. length seg \<le> NAME_MAX \<and> CHR 0x00 \<notin> set seg) p
      \<and> path_string_length absolute p < PATH_MAX)"

definition writable :: "string \<Rightarrow> filesystem \<Rightarrow> DurableLifespan \<Rightarrow> string \<Rightarrow> string \<Rightarrow> bool" where
  "writable base fs ls nm sc =
     (disk_ok base fs \<and> CHR ''/'' \<notin> set nm \<and> (ls = Project \<or> plain sc)
      \<and> fits (isAbsolute base)
            (getAgentPathByNameAndScope \<lparr>basePath = base, storage_lifespan = ls\<rparr> nm sc))"

section \<open>Filters\<close>

text \<open>
  Claim C4 (amended). In both backends the match predicate of \<^verbatim>\<open>list\<close> and \<^verbatim>\<open>deleteMany\<close>
  holds iff every field of the filter that is present and not the empty string is equal
  to the corresponding field of the record. The guards test the truthiness of a field,
  so a field that holds the empty string constrains nothing, like an absent one.
\<close>

theorem matchesFilter_truthy_fields:
  "FileStorage_matchesFilter a flt =
     ((truthy (filter_lifespan flt) \<longrightarrow> filter_lifespan flt = Some (lifespan a))
      \<and> (truthy (filter_scope flt) \<longrightarrow> filter_scope flt = Some (scope a))
      \<and> (truthy (filter_name flt) \<longrightarrow> filter_name flt = Some (name a)))
   \<and> MemoryStorage_matchesFilter a flt = FileStorage_matchesFilter a flt"
  by (auto simp: FileStorage_matchesFilter_def MemoryStorage_matchesFilter_def)

text \<open>The theorem at a record of session \<open>S1\<close>: a filter for \<open>S1\<close> matches, one for \<open>S2\<close> does not.\<close>

theorem matchesFilter_truthy_fields_witness:
  "FileStorage_matchesFilter sample_agent
      \<lparr>filter_lifespan = Some ''session'', filter_scope = Some ''S1'', filter_name = None\<rparr>
   \<and> \<not> MemoryStorage_matchesFilter sample_agent
      \<lparr>filter_lifespan = Some ''session'', filter_scope = Some ''S2'', filter_name = None\<rparr>"
  using matchesFilter_truthy_fields [of sample_agent
      "\<lparr>filter_lifespan = Some ''session'', filter_scope = Some ''S1'', filter_name = None\<rparr>"]
    matchesFilter_truthy_fields [of sample_agent
      "\<lparr>filter_lifespan = Some ''session'', filter_scope = Some ''S2'', filter_name = None\<rparr>"]
  by (simp add: truthy_def sample_agent_def)

text \<open>
  As first stated, a filter whose scope is present with the empty string would match only
  records of empty scope. It matches a record of scope \<open>S1\<close>, in both backends.
\<close>

theorem matchesFilter_empty_scope_counterexample:
  "FileStorage_matchesFilter sample_agent (scope_filter [])
   \<and> MemoryStorage_matchesFilter sample_agent (scope_filter [])
   \<and> scope sample_agent \<noteq> []"
  by (simp add: FileStorage_matchesFilter_def MemoryStorage_matchesFilter_def scope_filter_def
      truthy_def sample_agent_def)

section \<open>Scope resolution\<close>

text \<open>
  Claim C5 (amended). For a creation request of lifespan \<^verbatim>\<open>turn\<close> or \<^verbatim>\<open>context\<close> the
  resolved scope is the ambient session identifier \<^verbatim>\<open>CLAUDE_SESSION_ID\<close> when it is set,
  and otherwise the literal \<^verbatim>\<open>turn\<close>, respectively \<^verbatim>\<open>context\<close>, whatever else the request
  carries: these two lifespans have no explicit override.
\<close>

theorem getScope_turn_context:
  "(config_lifespan c = Some ''turn'' \<longrightarrow>
      getScope env c = Some (case CLAUDE_SESSION_ID env of Some s \<Rightarrow> s | None \<Rightarrow> ''turn''))
   \<and> (config_lifespan c = Some ''context'' \<longrightarrow>
      getScope env c = Some (case CLAUDE_SESSION_ID env of Some s \<Rightarrow> s | None \<Rightarrow> ''context''))"
  by (simp add: getScope_def)

theorem getScope_turn_context_witness:
  "getScope session_env (config_of ''turn'' ''helper'') = Some ''S-ambient''
   \<and> getScope plain_env (config_of ''turn'' ''helper'') = Some ''turn''
   \<and> getScope plain_env (config_of ''context'' ''helper'') = Some ''context''"
  using getScope_turn_context [of "config_of ''turn'' ''helper''" session_env]
    getScope_turn_context [of "config_of ''turn'' ''helper''" plain_env]
    getScope_turn_context [of "config_of ''context'' ''helper''" plain_env]
  by (simp add: config_of_def session_env_def plain_env_def)

text \<open>
  As first stated, an explicit override would win. A request of lifespan \<^verbatim>\<open>turn\<close> or
  \<^verbatim>\<open>context\<close> that carries the session identifier \<open>S-explicit\<close> is scoped to the ambient
  identifier all the same.
\<close>

theorem getScope_turn_ignores_override_counterexample:
  "getScope session_env ((config_of ''turn'' ''helper'')\<lparr>sessionId := Some ''S-explicit''\<rparr>)
     = Some ''S-ambient''
   \<and> getScope session_env ((config_of ''context'' ''helper'')\<lparr>sessionId := Some ''S-explicit''\<rparr>)
     = Some ''S-ambient''
   \<and> Some ''S-ambient'' \<noteq> Some ''S-explicit''"
  by (simp add: getScope_def session_env_def config_of_def)

section \<open>Validation\<close>

text \<open>
  Claim C6. A configuration with an empty or missing name, a missing lifespan, an
  unrecognized lifespan, or lifespan \<^verbatim>\<open>workflow\<close> without a workflow identifier makes
  \<^verbatim>\<open>create\<close> throw an \<^verbatim>\<open>InvalidConfigError\<close>. The error depends on the configuration
  alone (no backend is read) and the state is returned as it was (no backend is written).
  For an unrecognized lifespan the error comes from \<open>getStorage\<close>, which runs before the
  lookup.
\<close>

theorem create_rejects_invalid_config:
  assumes "invalid_config c"
  shows "\<exists>msg. \<forall>env d reg. create env d reg c = (Inl (InvalidConfigError msg), reg)"
proof (cases "validateConfig c")
  case (Some e)
  then obtain msg where "e = InvalidConfigError msg"
    by (auto simp: validateConfig_def split: if_splits)
  with Some show ?thesis by (auto simp: create_def)
next
  case None
  with assms obtain l where l: "config_lifespan c = Some l" "l \<notin> set recognized_lifespans"
    by (auto simp: invalid_config_def validateConfig_def truthy_def split: if_splits option.splits)
  then have "getStorage (config_lifespan c) = Inl (InvalidConfigError (''Unknown lifespan: '' @ l))"
    by (auto simp: getStorage_def recognized_lifespans_def)
  with None show ?thesis by (auto simp: create_def)
qed

theorem create_rejects_invalid_config_witness:
  "invalid_config (config_of ''forever'' ''helper'')
   \<and> create plain_env draw_a fresh_registry (config_of ''forever'' ''helper'')
       = (Inl (InvalidConfigError ''Unknown lifespan: forever''), fresh_registry)
   \<and> invalid_config (config_of ''workflow'' ''helper'')
   \<and> create plain_env draw_a fresh_registry (config_of ''workflow'' ''helper'')
       = (Inl (InvalidConfigError ''workflowId is required for workflow-scoped agents''),
          fresh_registry)"
  using create_rejects_invalid_config [of "config_of ''forever'' ''helper''"]
    create_rejects_invalid_config [of "config_of ''workflow'' ''helper''"]
  by (simp add: invalid_config_def recognized_lifespans_def config_of_def create_def
      validateConfig_def getStorage_def truthy_def getScope_def)

section \<open>JSON values\<close>

lemma json_value_representable: "representable v \<Longrightarrow> json_value v = v"
proof (induction v)
  case (JArr vs)
  then have "\<forall>x\<in>set vs. x \<noteq> JUndefined \<and> json_value x = x"
    by (fastforce simp: list_all_iff)
  then have "map (\<lambda>v. if v = JUndefined then JNull else json_value v) vs = vs"
    by (intro map_idI) simp
  then show ?case by simp
next
  case (JObj kvs)
  then have ok: "\<forall>(k, v)\<in>set kvs. v \<noteq> JUndefined \<and> json_value v = v"
    by (fastforce simp: list_all_iff)
  then have "filter (\<lambda>(k, v). v \<noteq> JUndefined) kvs = kvs"
    by (intro filter_True) auto
  moreover from ok have "map (\<lambda>(k, v). (k, json_value v)) kvs = kvs"
    by (intro map_idI) auto
  ultimately show ?case by simp
qed simp_all

lemma json_members_representable:
  assumes "representable (JObj md)"
  shows "json_members md = md"
  using json_value_representable [OF assms] by (simp add: json_members_def)

lemma representable_serializable: "representable v \<Longrightarrow> serializable v"
proof (induction v)
  case (JArr vs)
  then show ?case by (auto simp: list_all_iff)
next
  case (JObj kvs)
  then show ?case by (fastforce simp: list_all_iff)
qed simp_all




section \<open>Paths of names and scopes that are single segments\<close>

lemma split_sep_plain: "CHR ''/'' \<notin> set s \<Longrightarrow> split_sep s = [s]"
  by (induction s) auto

lemma normalizeString_plain_segs:
  "list_all plain segs \<Longrightarrow> normalizeString b res segs = res @ segs"
  by (induction segs arbitrary: res) (auto simp: plain_def)

lemma normalizeString_append:
  "normalizeString b res (xs @ ys) = normalizeString b (normalizeString b res xs) ys"
  by (induction xs arbitrary: res) auto

lemma concat_split_plain: "list_all plain segs \<Longrightarrow> concat (map split_sep segs) = segs"
  by (induction segs) (auto simp: plain_def split_sep_plain)

lemma filter_nonempty_plain: "list_all plain segs \<Longrightarrow> filter (\<lambda>s. s \<noteq> []) segs = segs"
  by (induction segs) (auto simp: plain_def)

lemma join_under_root:
  assumes "list_all plain segs"
  shows "join (base # segs) = storage_root base @ segs"
proof (cases "base = []")
  case True
  have "join segs = segs"
    using assms
    by (simp add: join_def filter_nonempty_plain concat_split_plain normalizeString_plain_segs)
  moreover have "join (base # segs) = join segs" using True by (simp add: join_def)
  moreover have "storage_root base = []" using True by (simp add: storage_root_def join_def)
  ultimately show ?thesis by simp
next
  case False
  then show ?thesis
    using assms
    by (simp add: join_def storage_root_def filter_nonempty_plain concat_split_plain
        normalizeString_append normalizeString_plain_segs)
qed

lemma plain_lifespan_name [simp]: "plain (lifespan_name ls)"
  by (cases ls) (simp_all add: plain_def)

lemma plain_words [simp]: "plain ''session''" "plain ''workflow''" "plain ''project''"
  by (simp_all add: plain_def)

lemma lifespanDir_eq: "join [base, lifespan_name ls] = storage_root base @ [lifespan_name ls]"
  by (rule join_under_root) simp


lemma plain_json_file: "CHR ''/'' \<notin> set nm \<Longrightarrow> plain (nm @ ''.json'')"
  by (cases nm rule: rev_cases) (auto simp: plain_def)

lemma endsWith_json [simp]: "endsWith (nm @ ''.json'') ''.json''"
  by (simp add: endsWith_def suffix_def)

text \<open>The two path functions of the file store agree.\<close>

lemma getAgentPath_eq: "getAgentPath cfg a = getAgentPathByNameAndScope cfg (name a) (scope a)"
  by (simp add: getAgentPath_def getAgentPathByNameAndScope_def)

lemma getAgentPath_same_key:
  "name b = name a \<Longrightarrow> scope b = scope a \<Longrightarrow> getAgentPath cfg b = getAgentPath cfg a"
  by (simp add: getAgentPath_eq)

lemma getAgentPathByNameAndScope_plain:
  assumes "CHR ''/'' \<notin> set nm" and "ls = Project \<or> plain sc"
  shows "getAgentPathByNameAndScope \<lparr>basePath = base, storage_lifespan = ls\<rparr> nm sc
     = storage_root base @ (case ls of Project \<Rightarrow> [''project'', nm @ ''.json'']
                             | _ \<Rightarrow> [lifespan_name ls, sc, nm @ ''.json''])"
  using assms plain_json_file [of nm]
  by (cases ls) (auto simp: getAgentPathByNameAndScope_def intro!: join_under_root)

lemma getAgentPath_plain:
  assumes "CHR ''/'' \<notin> set (name a)" and "ls = Project \<or> plain (scope a)"
  shows "getAgentPath \<lparr>basePath = base, storage_lifespan = ls\<rparr> a
     = storage_root base @ (case ls of Project \<Rightarrow> [''project'', name a @ ''.json'']
                             | _ \<Rightarrow> [lifespan_name ls, scope a, name a @ ''.json''])"
  unfolding getAgentPath_eq by (rule getAgentPathByNameAndScope_plain [OF assms])

lemma in_tier_plain_path:
  assumes "CHR ''/'' \<notin> set nm" and "ls = Project \<or> plain sc"
  shows "in_tier base ls (getAgentPathByNameAndScope \<lparr>basePath = base, storage_lifespan = ls\<rparr> nm sc)"
  unfolding in_tier_def lifespanDir_eq getAgentPathByNameAndScope_plain [OF assms]
  by (cases ls) simp_all


section \<open>The layout of the durable tree\<close>

lemma well_placed_cases:
  assumes "well_placed base (p, n)"
  obtains (project) f c where "n = File c" "p = storage_root base @ [''project'', f]" "plain f"
      "endsWith f ''.json''" "\<And>a. c = JsonText a \<Longrightarrow> f = name a @ ''.json''"
  | (scoped) d s f c where "n = File c" "p = storage_root base @ [d, s, f]"
      "d = ''session'' \<or> d = ''workflow''"
      "plain s" "plain f" "endsWith f ''.json''"
      "\<And>a. c = JsonText a \<Longrightarrow> s = scope a \<and> f = name a @ ''.json''"
proof -
  define r where "r = storage_root base"
  define t where "t = drop (length r) p"
  from assms obtain c where n: "n = File c"
    by (cases n) (simp_all add: well_placed_def)
  from assms n have "take (length r) p = r"
    by (simp add: well_placed_def r_def)
  then have p: "p = r @ t"
    unfolding t_def by (metis append_take_drop_id)
  from assms n have shape: "(case t of
           [d, f] \<Rightarrow>
             d = ''project'' \<and> plain f \<and> endsWith f ''.json'' \<and>
             (case c of JsonText a \<Rightarrow> f = name a @ ''.json'' | Malformed t \<Rightarrow> True)
         | [d, s, f] \<Rightarrow>
             (d = ''session'' \<or> d = ''workflow'') \<and> plain s \<and> plain f \<and> endsWith f ''.json'' \<and>
             (case c of JsonText a \<Rightarrow> s = scope a \<and> f = name a @ ''.json''
                            | Malformed t \<Rightarrow> True)
         | _ \<Rightarrow> False)"
    by (simp add: well_placed_def r_def t_def)
  then consider (two) d f where "t = [d, f]" | (three) d s f where "t = [d, s, f]"
    by (auto split: list.splits)
  then show thesis
  proof cases
    case two
    with shape have "d = ''project''" "plain f" "endsWith f ''.json''"
        "\<And>a. c = JsonText a \<Longrightarrow> f = name a @ ''.json''"
      by auto
    with two p n show ?thesis
      using project [of c f] by (simp add: r_def)
  next
    case three
    with shape have "d = ''session'' \<or> d = ''workflow''" "plain s" "plain f" "endsWith f ''.json''"
        "\<And>a. c = JsonText a \<Longrightarrow> s = scope a \<and> f = name a @ ''.json''"
      by auto
    with three p n show ?thesis
      using scoped [of c d s f] by (simp add: r_def)
  qed
qed

lemma well_placed_no_extension:
  assumes "well_placed base (p, n)" "well_placed base (q, n')" "prefix p q"
  shows "q = p"
  using assms(1)
proof (cases rule: well_placed_cases)
  case (project f c)
  from assms(2) show ?thesis
  proof (cases rule: well_placed_cases)
    case (project f' c')
    with \<open>p = storage_root base @ [''project'', f]\<close> assms(3) show ?thesis by simp
  next
    case (scoped d' s' f' c')
    with \<open>p = storage_root base @ [''project'', f]\<close> assms(3) show ?thesis by auto
  qed
next
  case (scoped d s f c)
  from assms(2) show ?thesis
  proof (cases rule: well_placed_cases)
    case (project f' c')
    with \<open>p = storage_root base @ [d, s, f]\<close> assms(3) show ?thesis by simp
  next
    case (scoped d' s' f' c')
    with \<open>p = storage_root base @ [d, s, f]\<close> assms(3) show ?thesis by simp
  qed
qed

lemma well_placed_path:
  assumes wp: "well_placed base (p, File (JsonText a))"
    and tier: "in_tier base ls p"
  shows "getAgentPath \<lparr>basePath = base, storage_lifespan = ls\<rparr> a = p"
  using wp
proof (cases rule: well_placed_cases)
  case (project f c)
  from project(1) have c: "c = JsonText a" by simp
  have f: "f = name a @ ''.json''" by (rule project(5) [OF c])
  from tier have "prefix (storage_root base @ [lifespan_name ls]) p"
    by (simp add: in_tier_def lifespanDir_eq)
  with project(2) have "lifespan_name ls = ''project''" by simp
  then have "ls = Project" by (cases ls) simp_all
  moreover have "join [base, ''project'', name a @ ''.json'']
      = storage_root base @ [''project'', name a @ ''.json'']"
    using project(3) f by (intro join_under_root) simp
  ultimately show ?thesis using project(2) f by (simp add: getAgentPath_def)
next
  case (scoped d s f c)
  from scoped(1) have c: "c = JsonText a" by simp
  have f: "s = scope a" "f = name a @ ''.json''"
    using scoped(7) [OF c] by simp_all
  from tier have "prefix (storage_root base @ [lifespan_name ls]) p"
    by (simp add: in_tier_def lifespanDir_eq)
  with scoped(2) have d: "d = lifespan_name ls" by simp
  with scoped(3) have ls: "ls = Session \<or> ls = Workflow"
    by (cases ls) auto
  have "join [base, d, scope a, name a @ ''.json'']
      = storage_root base @ [d, scope a, name a @ ''.json'']"
    using scoped(3,4,5) f by (intro join_under_root) auto
  with ls d show ?thesis using scoped(2) f by (auto simp: getAgentPath_def)
qed


lemma well_placed_document:
  assumes "CHR ''/'' \<notin> set (name a)" and "ls = Project \<or> plain (scope a)"
    and "name b = name a" "scope b = scope a"
  shows "well_placed base
     (getAgentPath \<lparr>basePath = base, storage_lifespan = ls\<rparr> a, File (JsonText b))"
  using assms plain_json_file [of "name a"]
  by (cases ls) (auto simp: getAgentPath_plain well_placed_def)

lemma well_placed_same_key:
  assumes "well_placed base (q, File (JsonText a))" "name b = name a" "scope b = scope a"
  shows "well_placed base (q, File (JsonText b))"
  using assms by (auto simp: well_placed_def split: list.splits)

lemma disk_ok_entry: "disk_ok base fs \<Longrightarrow> (p, n) \<in> set fs \<Longrightarrow> well_placed base (p, n)"
  by (auto simp: disk_ok_def list_all_iff)



lemma disk_ok_no_directory: "disk_ok base fs \<Longrightarrow> map_of fs p \<noteq> Some Directory"
proof
  assume ok: "disk_ok base fs" and "map_of fs p = Some Directory"
  then have "(p, Directory) \<in> set fs" by (simp add: map_of_SomeD)
  from disk_ok_entry [OF ok this] show False by (simp add: well_placed_def)
qed

lemma set_update_cases:
  "(k', v') \<in> set (AList.update k v al) \<Longrightarrow> (k' = k \<and> v' = v) \<or> (k', v') \<in> set al"
  by (induction al) (auto split: if_splits)

lemma disk_ok_write:
  assumes ok: "disk_ok base fs" and wp: "well_placed base (p, File c)"
  shows "disk_ok base (writeFileSync fs p c)"
proof -
  have "well_placed base (q, n)" if "(q, n) \<in> set (AList.update p (File c) fs)" for q n
    using set_update_cases [OF that] wp disk_ok_entry [OF ok, of q n] by auto
  moreover have "distinct (map fst (AList.update p (File c) fs))"
    using ok by (simp add: disk_ok_def distinct_update)
  ultimately show ?thesis
    by (auto simp: disk_ok_def list_all_iff writeFileSync_def)
qed


section \<open>Writing a document\<close>

text \<open>
  In a tree that has the layout, \<^verbatim>\<open>save\<close> of a record whose name and scope are single
  segments and whose path is within the limits of the system does not throw: no file
  lies on the way to the document and nothing lies below it.
\<close>

lemma walk_ok:
  assumes "\<forall>seg\<in>set segs. length seg \<le> NAME_MAX"
    and "\<forall>k<length segs. \<not> is_file fs (at @ take (Suc k) segs)"
  shows "walk fs at segs = (None, at @ segs)"
  using assms
proof (induction segs arbitrary: at)
  case Nil
  then show ?case by simp
next
  case (Cons seg segs)
  from Cons.prems(2) have "\<not> is_file fs (at @ take (Suc 0) (seg # segs))" by blast
  then have nf: "\<not> is_file fs (at @ [seg])" by simp
  have "\<forall>k<length segs. \<not> is_file fs ((at @ [seg]) @ take (Suc k) segs)"
  proof (intro allI impI)
    fix k assume "k < length segs"
    then have "Suc k < length (seg # segs)" by simp
    with Cons.prems(2) have "\<not> is_file fs (at @ take (Suc (Suc k)) (seg # segs))" by blast
    then show "\<not> is_file fs ((at @ [seg]) @ take (Suc k) segs)" by simp
  qed
  with Cons.IH [of "at @ [seg]"] Cons.prems(1) nf show ?case by simp
qed

lemma is_file_entry: "is_file fs q \<Longrightarrow> \<exists>c. (q, File c) \<in> set fs"
  by (auto simp: is_file_def dest: map_of_SomeD split: option.splits node.splits)

lemma is_file_append_directory [simp]: "is_file (fs @ [(d, Directory)]) q = is_file fs q"
  by (simp add: is_file_def map_add_def split: option.splits)

lemma no_file_above:
  assumes ok: "disk_ok base fs" and wp: "well_placed base (p, n)" and q: "strict_prefix q p"
  shows "\<not> is_file fs q"
proof
  assume "is_file fs q"
  then obtain c where "(q, File c) \<in> set fs" using is_file_entry by blast
  from well_placed_no_extension [OF disk_ok_entry [OF ok this] wp] q show False
    by (simp add: strict_prefix_def)
qed

lemma not_directory:
  assumes ok: "disk_ok base fs" and wp: "well_placed base (p, n)"
  shows "\<not> isDirectory fs p"
proof
  assume "isDirectory fs p"
  with disk_ok_no_directory [OF ok] obtain q where q: "q \<in> fst ` set fs" "strict_prefix p q"
    by (auto simp: isDirectory_def)
  then obtain m where "(q, m) \<in> set fs" by auto
  from well_placed_no_extension [OF wp disk_ok_entry [OF ok this]] q(2) show False
    by (simp add: strict_prefix_def)
qed

lemma fits_path_throws: "fits absolute p \<Longrightarrow> path_throws absolute p = None"
  by (auto simp: fits_def path_throws_def list_ex_iff list_all_iff)

lemma fits_segments: "fits absolute p \<Longrightarrow> seg \<in> set p \<Longrightarrow> length seg \<le> NAME_MAX"
  by (simp add: fits_def list_all_iff)

lemma fits_butlast:
  assumes "fits absolute p"
  shows "fits absolute (butlast p)"
proof (cases p rule: rev_cases)
  case Nil
  with assms show ?thesis by simp
next
  case (snoc xs x)
  with assms show ?thesis
    by (auto simp: fits_def path_string_length_def)
qed

lemma mkdirSync_ok:
  assumes "fits absolute d" and "d \<noteq> []" and "\<not> existsSync fs d"
    and "\<forall>k<length d. \<not> is_file fs (take (Suc k) d)"
  shows "mkdirSync absolute fs d = (None, fs @ [(d, Directory)])"
proof -
  from assms(2) have "length d - 1 < length d" by (cases d) simp_all
  with assms(4) have "\<not> is_file fs (take (Suc (length d - 1)) d)" by blast
  with assms(2) have nf: "\<not> is_file fs d" by (cases d) simp_all
  have "walk fs [] d = (None, d)"
    using walk_ok [of d fs "[]"] assms(1,4) fits_segments [OF assms(1)] by simp
  with nf assms(2,3) fits_path_throws [OF assms(1)] show ?thesis
    by (simp add: mkdirSync_def)
qed

lemma writeFileSync_ok:
  assumes "fits absolute p" and "p \<noteq> []"
    and "\<forall>k<length (butlast p). \<not> is_file fs (take (Suc k) (butlast p))"
    and "existsSync fs (butlast p)"
    and "\<not> isDirectory fs p"
  shows "writeFileSync_throws absolute fs p = None"
proof -
  have "walk fs [] (butlast p) = (None, butlast p)"
    using walk_ok [of "butlast p" fs "[]"] assms(3) fits_segments [OF fits_butlast [OF assms(1)]]
    by simp
  moreover have "length (last p) \<le> NAME_MAX"
    using fits_segments [OF assms(1), of "last p"] assms(2) by simp
  ultimately show ?thesis
    using assms(2,4,5) fits_path_throws [OF assms(1)]
    by (simp add: writeFileSync_throws_def dirname_def)
qed

lemma existsSync_append_directory: "existsSync (fs @ [(d, Directory)]) d"
  by (simp add: existsSync_def)

lemma isDirectory_append_directory:
  assumes "\<not> prefix p d"
  shows "isDirectory (fs @ [(d, Directory)]) p = isDirectory fs p"
proof -
  from assms have "p \<noteq> d" "\<not> strict_prefix p d" by (auto simp: strict_prefix_def)
  then show ?thesis
    by (auto simp: isDirectory_def map_add_def split: option.splits)
qed

lemma FileStorage_save_ok:
  assumes w: "writable base fs ls (name a) (scope a)"
    and s: "serializable (JObj (metadata a))"
  shows "FileStorage_save \<lparr>basePath = base, storage_lifespan = ls\<rparr> fs a
     = (None, writeFileSync fs (getAgentPath \<lparr>basePath = base, storage_lifespan = ls\<rparr> a)
                (JsonText (a\<lparr>metadata := json_members (metadata a)\<rparr>)))"
proof -
  define cfg where "cfg = \<lparr>basePath = base, storage_lifespan = ls\<rparr>"
  define p where "p = getAgentPath cfg a"
  define dir where "dir = butlast p"
  define absolute where "absolute = isAbsolute base"
  from w have ok: "disk_ok base fs" and nm: "CHR ''/'' \<notin> set (name a)"
    and sc: "ls = Project \<or> plain (scope a)" and ft: "fits absolute p"
    by (simp_all add: writable_def p_def cfg_def getAgentPath_eq absolute_def)
  have wp: "well_placed base (p, File (JsonText a))"
    unfolding p_def cfg_def by (rule well_placed_document [OF nm sc]) simp_all
  have shape: "p = storage_root base @ (case ls of Project \<Rightarrow> [''project'', name a @ ''.json'']
                             | _ \<Rightarrow> [lifespan_name ls, scope a, name a @ ''.json''])"
    unfolding p_def cfg_def by (rule getAgentPath_plain [OF nm sc])
  then have ne: "p \<noteq> []" "dir \<noteq> []"
    by (cases ls; simp add: dir_def butlast_append)+
  from ne(1) have sp: "strict_prefix dir p"
    unfolding dir_def by (cases p rule: rev_cases) (simp_all add: strict_prefix_def)
  have above: "\<forall>k<length dir. \<not> is_file fs (take (Suc k) dir)"
  proof (intro allI impI)
    fix k assume "k < length dir"
    have "prefix (take (Suc k) dir) dir" by (rule take_is_prefix)
    with sp have "strict_prefix (take (Suc k) dir) p"
      by (meson prefix_order.le_less_trans)
    from no_file_above [OF ok wp this] show "\<not> is_file fs (take (Suc k) dir)" .
  qed
  have nd: "\<not> isDirectory fs p" by (rule not_directory [OF ok wp])
  have str: "JSON_stringify a = Inr (JsonText (a\<lparr>metadata := json_members (metadata a)\<rparr>))"
    using s by (simp add: JSON_stringify_def)
  have ab: "isAbsolute (basePath cfg) = absolute"
    by (simp add: cfg_def absolute_def)
  show ?thesis
  proof (cases "existsSync fs dir")
    case True
    have "writeFileSync_throws absolute fs p = None"
      using writeFileSync_ok [OF ft ne(1)] above True nd by (simp add: dir_def)
    with True str show ?thesis
      by (simp add: FileStorage_save_def Let_def dirname_def
          p_def [symmetric] cfg_def [symmetric] dir_def [symmetric] ab)
  next
    case False
    define fs1 where "fs1 = fs @ [(dir, Directory)]"
    have mk: "mkdirSync absolute fs dir = (None, fs1)"
      unfolding fs1_def dir_def
      by (rule mkdirSync_ok [OF fits_butlast [OF ft]]) (use ne False above in \<open>simp_all add: dir_def\<close>)
    have np: "\<not> prefix p dir"
      using sp by (auto simp: strict_prefix_def)
    have "writeFileSync_throws absolute fs1 p = None"
    proof (rule writeFileSync_ok [OF ft ne(1)])
      show "\<forall>k<length (butlast p). \<not> is_file fs1 (take (Suc k) (butlast p))"
        using above by (simp add: fs1_def dir_def)
      show "existsSync fs1 (butlast p)"
        unfolding fs1_def dir_def [symmetric] by (rule existsSync_append_directory)
      show "\<not> isDirectory fs1 p"
        unfolding fs1_def using isDirectory_append_directory [OF np] nd by simp
    qed
    with False mk str show ?thesis
      by (simp add: FileStorage_save_def Let_def dirname_def
          p_def [symmetric] cfg_def [symmetric] dir_def [symmetric] ab)
  qed
qed

lemma FileStorage_save_written:
  assumes "FileStorage_save cfg fs a = (None, fs')"
  shows "serializable (JObj (metadata a))"
    and "fs' = writeFileSync fs (getAgentPath cfg a)
                 (JsonText (a\<lparr>metadata := json_members (metadata a)\<rparr>))"
  using assms
  by (auto simp: FileStorage_save_def Let_def JSON_stringify_def
      split: prod.splits option.splits sum.splits if_splits)

lemma FileStorage_find_written:
  "FileStorage_findByNameAndScope cfg (writeFileSync fs (getAgentPath cfg a) (JsonText b))
      (name a) (scope a) = Some b"
  by (simp add: FileStorage_findByNameAndScope_def getAgentPath_eq existsSync_def
      readFileSync_def writeFileSync_def update_conv' dom_update JSON_parse_def Let_def)

lemma FileStorage_find_after_save:
  assumes "FileStorage_save cfg fs a = (None, fs')"
  shows "FileStorage_findByNameAndScope cfg fs' (name a) (scope a)
     = Some (a\<lparr>metadata := json_members (metadata a)\<rparr>)"
  unfolding FileStorage_save_written(2) [OF assms] by (rule FileStorage_find_written)

lemma MemoryStorage_find_after_save:
  "agentId a \<noteq> [] \<Longrightarrow>
   MemoryStorage_findByNameAndScope (MemoryStorage_save m a) (name a) (scope a) = Some a"
  by (simp add: MemoryStorage_findByNameAndScope_def MemoryStorage_save_def update_conv')


section \<open>Persistence of a record\<close>

text \<open>
  Claim C9 (amended). In each of the three file stores and for every state of the disk:
  whenever \<^verbatim>\<open>save\<close> of a record whose metadata is JSON-representable, nested to any depth,
  returns, \<^verbatim>\<open>findByNameAndScope\<close> with the record's name and scope then returns the
  record, equal in every field. And \<^verbatim>\<open>save\<close> does return when the tree has the layout of
  the stores, the name holds no separator, the scope of a session or workflow record is
  a single segment and the path of the document is within the limits of the system
  (\<open>writable\<close>).
\<close>

theorem FileStorage_save_find_roundtrip:
  assumes "representable (JObj (metadata a))"
  shows "(\<forall>fs'. FileStorage_save cfg fs a = (None, fs') \<longrightarrow>
            FileStorage_findByNameAndScope cfg fs' (name a) (scope a) = Some a)
       \<and> (writable (basePath cfg) fs (storage_lifespan cfg) (name a) (scope a) \<longrightarrow>
            (\<exists>fs'. FileStorage_save cfg fs a = (None, fs')))"
proof (intro conjI allI impI)
  fix fs' assume "FileStorage_save cfg fs a = (None, fs')"
  from FileStorage_find_after_save [OF this] json_members_representable [OF assms]
  show "FileStorage_findByNameAndScope cfg fs' (name a) (scope a) = Some a" by simp
next
  assume w: "writable (basePath cfg) fs (storage_lifespan cfg) (name a) (scope a)"
  have cfg: "cfg = \<lparr>basePath = basePath cfg, storage_lifespan = storage_lifespan cfg\<rparr>"
    by simp
  from FileStorage_save_ok [OF w representable_serializable [OF assms]]
  show "\<exists>fs'. FileStorage_save cfg fs a = (None, fs')"
    by (subst cfg) blast
qed

text \<open>The session store of an empty tree: the sample record is written and read back.\<close>

theorem FileStorage_save_find_roundtrip_witness:
  "representable (JObj (metadata sample_agent))
   \<and> writable ''.agent/agents'' [] Session (name sample_agent) (scope sample_agent)
   \<and> (\<exists>fs'. FileStorage_save \<lparr>basePath = ''.agent/agents'', storage_lifespan = Session\<rparr> []
                sample_agent = (None, fs')
            \<and> FileStorage_findByNameAndScope
                 \<lparr>basePath = ''.agent/agents'', storage_lifespan = Session\<rparr> fs'
                 (name sample_agent) (scope sample_agent) = Some sample_agent)"
proof -
  have r: "representable (JObj (metadata sample_agent))"
    by (simp add: sample_agent_def)
  have w: "writable ''.agent/agents'' [] Session (name sample_agent) (scope sample_agent)"
    by code_simp
  note main = FileStorage_save_find_roundtrip [OF r,
      of "\<lparr>basePath = ''.agent/agents'', storage_lifespan = Session\<rparr>" "[]"]
  from main w obtain fs' where
    s: "FileStorage_save \<lparr>basePath = ''.agent/agents'', storage_lifespan = Session\<rparr> []
          sample_agent = (None, fs')"
    by auto
  with main have "FileStorage_findByNameAndScope
      \<lparr>basePath = ''.agent/agents'', storage_lifespan = Session\<rparr> fs'
      (name sample_agent) (scope sample_agent) = Some sample_agent"
    by blast
  with r w s show ?thesis by blast
qed

text \<open>
  As first stated, \<^verbatim>\<open>save\<close> followed by \<^verbatim>\<open>findByNameAndScope\<close> would return the record for
  every record with representable metadata. Where \<^verbatim>\<open>workflow/W/a.json\<close> is a directory,
  \<^verbatim>\<open>save\<close> of the record \<open>a\<close> of the workflow \<open>W\<close> throws \<^verbatim>\<open>EISDIR\<close>; for a record whose name
  has 300 bytes it throws \<^verbatim>\<open>ENAMETOOLONG\<close> on an empty tree. The lookup that follows
  finds nothing.
\<close>

theorem FileStorage_save_throws_counterexample:
  "representable (JObj (metadata sample_agent))
   \<and> fst (FileStorage_save (fileStorages blocked_registry Workflow) (disk blocked_registry)
            (sample_agent\<lparr>name := ''a'', scope := ''W''\<rparr>)) = Some (SystemError ''EISDIR'')
   \<and> FileStorage_findByNameAndScope (fileStorages blocked_registry Workflow)
        (snd (FileStorage_save (fileStorages blocked_registry Workflow) (disk blocked_registry)
                (sample_agent\<lparr>name := ''a'', scope := ''W''\<rparr>))) ''a'' ''W'' = None
   \<and> fst (FileStorage_save \<lparr>basePath = ''.agent/agents'', storage_lifespan = Session\<rparr> []
            (sample_agent\<lparr>name := long_name\<rparr>)) = Some (SystemError ''ENAMETOOLONG'')
   \<and> FileStorage_findByNameAndScope \<lparr>basePath = ''.agent/agents'', storage_lifespan = Session\<rparr>
        (snd (FileStorage_save \<lparr>basePath = ''.agent/agents'', storage_lifespan = Session\<rparr> []
                (sample_agent\<lparr>name := long_name\<rparr>))) long_name ''S1'' = None"
  by code_simp


section \<open>Find or create\<close>

lemma new_agent_fields [simp]:
  "agentId (new_agent d c nm ls sc) = randomUUID d"
  "name (new_agent d c nm ls sc) = nm"
  "lifespan (new_agent d c nm ls sc) = ls"
  "scope (new_agent d c nm ls sc) = sc"
  "createdAt (new_agent d c nm ls sc) = date1 d"
  "turnCount (new_agent d c nm ls sc) = 0"
  by (simp_all add: new_agent_def Let_def)

lemma list_all_update:
  "P (k, v) \<Longrightarrow> list_all P al \<Longrightarrow> list_all P (AList.update k v al)"
  by (induction al) auto

lemma new_agent_serializable:
  assumes "serializable (JObj (case config_metadata c of Some m \<Rightarrow> m | None \<Rightarrow> []))"
  shows "serializable (JObj (metadata (new_agent d c nm ls sc)))"
  using assms
  by (auto simp: new_agent_def Let_def intro!: list_all_update split: option.splits)

text \<open>After validation the name, the lifespan and the scope are strings.\<close>

lemma validated_strings:
  assumes "validateConfig c = None"
  shows "\<exists>nm ls sc. config_name c = Some nm \<and> config_lifespan c = Some ls
           \<and> getScope env c = Some sc"
proof -
  from assms obtain nm ls where n: "config_name c = Some nm" "config_lifespan c = Some ls"
    by (auto simp: validateConfig_def truthy_def split: if_splits option.splits)
  have "\<exists>sc. getScope env c = Some sc"
  proof (cases "ls = ''workflow''")
    case True
    with assms n obtain w where "workflowId c = Some w"
      by (auto simp: validateConfig_def truthy_def split: if_splits option.splits)
    with True n show ?thesis by (simp add: getScope_def)
  next
    case False
    with n show ?thesis by (simp add: getScope_def)
  qed
  with n show ?thesis by blast
qed

lemma storage_find_after_save:
  assumes "storage_save reg st a = (None, reg')" and "agentId a \<noteq> []"
  shows "storage_findByNameAndScope reg' st (name a) (scope a)
     = Some (case st of MemoryRef \<Rightarrow> a | FileRef ls \<Rightarrow> a\<lparr>metadata := json_members (metadata a)\<rparr>)"
proof (cases st)
  case MemoryRef
  with assms show ?thesis
    by (auto simp: storage_findByNameAndScope_def storage_save_def MemoryStorage_find_after_save)
next
  case (FileRef ls)
  with assms(1) obtain fs' where s: "FileStorage_save (fileStorages reg ls) (disk reg) a = (None, fs')"
      and r: "reg' = reg\<lparr>disk := fs'\<rparr>"
    by (auto simp: storage_save_def split: prod.splits)
  from FileStorage_find_after_save [OF s] FileRef r show ?thesis
    by (simp add: storage_findByNameAndScope_def fileStorages_def)
qed

lemma writable_after_write:
  assumes w: "writable base fs ls (name a) (scope a)"
    and b: "name b = name a" "scope b = scope a"
  shows "writable base
           (writeFileSync fs (getAgentPath \<lparr>basePath = base, storage_lifespan = ls\<rparr> a) (JsonText b))
           ls (name a) (scope a)"
proof -
  from w have ok: "disk_ok base fs" and nm: "CHR ''/'' \<notin> set (name a)"
    and sc: "ls = Project \<or> plain (scope a)"
    by (simp_all add: writable_def)
  from disk_ok_write [OF ok well_placed_document [OF nm sc b]] w show ?thesis
    by (simp add: writable_def)
qed






section \<open>Resume\<close>

text \<open>
  Claim C10. \<^verbatim>\<open>resume\<close> with an explicit scope can return a record of lifespan
  \<^verbatim>\<open>ephemeral\<close>, which is not among the tiers it searches: when \<^verbatim>\<open>create\<close> stores a new
  ephemeral record named \<open>nm\<close> (scope \<^verbatim>\<open>ephemeral\<close>, in the volatile table), the call
  \<^verbatim>\<open>resume(nm, 'ephemeral')\<close> finds it in the probe of the \<^verbatim>\<open>turn\<close> tier and returns it with
  its turn count raised to 1.
\<close>

theorem resume_returns_ephemeral_record:
  assumes ls: "config_lifespan c = Some ''ephemeral''"
    and nm: "config_name c = Some nm" "nm \<noteq> []"
    and uuid: "randomUUID d \<noteq> []"
    and absent: "MemoryStorage_findByNameAndScope (memoryStorage reg) nm ''ephemeral'' = None"
  shows "\<exists>a reg1 reg2.
           create env d reg c = (Inr \<lparr>agent = a, isNew = True\<rparr>, reg1)
         \<and> lifespan a = ''ephemeral'' \<and> scope a = ''ephemeral'' \<and> turnCount a = 0
         \<and> resume env now reg1 nm (Some ''ephemeral'')
             = (Inr (a\<lparr>lastUsedAt := now, turnCount := 1\<rparr>), reg2)"
proof -
  define a where "a = new_agent d c nm ''ephemeral'' ''ephemeral''"
  define reg1 where "reg1 = reg\<lparr>memoryStorage := MemoryStorage_save (memoryStorage reg) a\<rparr>"
  have save1: "storage_save reg MemoryRef a = (None, reg1)"
    by (simp add: storage_save_def reg1_def)
  have v: "validateConfig c = None"
    using ls nm by (simp add: validateConfig_def truthy_def)
  have first: "create env d reg c = (Inr \<lparr>agent = a, isNew = True\<rparr>, reg1)"
    using v ls nm absent save1
    by (simp add: create_def getStorage_def getScope_def storage_findByNameAndScope_def
        a_def Let_def)
  have "agentId a \<noteq> []" "name a = nm" "scope a = ''ephemeral''"
    using uuid by (simp_all add: a_def)
  then have found: "storage_findByNameAndScope reg1 MemoryRef nm ''ephemeral'' = Some a"
    using storage_find_after_save [OF save1] by simp
  have "resume env now reg1 nm (Some ''ephemeral'')
      = (Inr (a\<lparr>lastUsedAt := now, turnCount := 1\<rparr>),
         reg1\<lparr>memoryStorage := MemoryStorage_save (memoryStorage reg1)
                 (a\<lparr>lastUsedAt := now, turnCount := 1\<rparr>)\<rparr>)"
    using found by (simp add: resume_def storage_save_def a_def Let_def)
  with first show ?thesis by (simp add: a_def)
qed

theorem resume_returns_ephemeral_record_witness:
  "MemoryStorage_findByNameAndScope (memoryStorage fresh_registry) ''scout'' ''ephemeral'' = None
   \<and> (\<exists>a reg1 reg2.
          create plain_env draw_a fresh_registry (config_of ''ephemeral'' ''scout'')
            = (Inr \<lparr>agent = a, isNew = True\<rparr>, reg1)
        \<and> lifespan a = ''ephemeral'' \<and> scope a = ''ephemeral'' \<and> turnCount a = 0
        \<and> resume plain_env ''2025-01-04T00:00:00.000Z'' reg1 ''scout'' (Some ''ephemeral'')
            = (Inr (a\<lparr>lastUsedAt := ''2025-01-04T00:00:00.000Z'', turnCount := 1\<rparr>), reg2))"
proof -
  have l: "config_lifespan (config_of ''ephemeral'' ''scout'') = Some ''ephemeral''"
    and n: "config_name (config_of ''ephemeral'' ''scout'') = Some ''scout''" "''scout'' \<noteq> []"
    by (simp_all add: config_of_def)
  have u: "randomUUID draw_a \<noteq> []" by (simp add: draw_a_def)
  have a: "MemoryStorage_findByNameAndScope (memoryStorage fresh_registry) ''scout'' ''ephemeral''
      = None"
    by (simp add: MemoryStorage_findByNameAndScope_def fresh_registry_def)
  from resume_returns_ephemeral_record [OF l n u a, of plain_env "''2025-01-04T00:00:00.000Z''"] a
  show ?thesis by simp
qed

text \<open>
  Claim C8. An un-scoped \<^verbatim>\<open>resume\<close> should never return a record of lifespan \<^verbatim>\<open>workflow\<close>.
  The workflow tier is probed with the empty scope, and \<^verbatim>\<open>path.join\<close> skips an empty
  argument, so the name takes the place of the scope directory: after a workflow record
  \<open>x\<close> is created under the workflow \<open>F1\<close>, \<^verbatim>\<open>resume('F1/x')\<close> without a scope reads
  \<^verbatim>\<open>workflow/F1/x.json\<close> and returns that record.
\<close>

theorem resume_unscoped_reaches_workflow_record:
  "fst (resume plain_env ''2025-01-04T00:00:00.000Z''
          (snd (create plain_env draw_a fresh_registry (workflow_config ''F1'' ''x'')))
          ''F1/x'' None)
     = Inr \<lparr>agentId = ''uuid-a'', name = ''x'', lifespan = ''workflow'', scope = ''F1'',
            model = ''haiku'', createdAt = ''2025-01-01T00:00:00.000Z'',
            lastUsedAt = ''2025-01-04T00:00:00.000Z'', turnCount = 1, metadata = []\<rparr>"
  by code_simp


section \<open>Listing the durable backend\<close>

text \<open>
  What \<^verbatim>\<open>list\<close> returns, for every state of the disk: the documents of the files named
  \<^verbatim>\<open>*.json\<close> that lie directly in a scope directory (for the project store, directly in
  the project directory) and pass the filter.
\<close>

lemma set_read_agents:
  "set (read_agents fs dir flt files) =
     {a. \<exists>f\<in>set files. readFileSync fs (dir @ [f]) = Some (JsonText a)
           \<and> (case flt of None \<Rightarrow> True | Some g \<Rightarrow> FileStorage_matchesFilter a g)}"
  by (induction files) (auto simp: JSON_parse_def split: option.splits file_content.splits)

lemma readFileSync_Some: "readFileSync fs p = Some c \<longleftrightarrow> map_of fs p = Some (File c)"
  by (auto simp: readFileSync_def split: option.splits node.splits)

lemma readdirSync_entry:
  assumes "map_of fs (d @ f # rest) = Some c"
  shows "f \<in> set (readdirSync fs d)"
proof -
  from assms have "(d @ f # rest, c) \<in> set fs" by (rule map_of_SomeD)
  then have "d @ f # rest \<in> set (filter (strict_prefix d) (map fst fs))"
    by (force simp: strict_prefix_def)
  then have "(d @ f # rest) ! length d \<in> set (readdirSync fs d)"
    unfolding readdirSync_def by (simp only: set_remdups set_map) (rule imageI)
  then show ?thesis by simp
qed

lemma isDirectory_entry:
  assumes "map_of fs (d @ f # rest) = Some c"
  shows "isDirectory fs d"
proof -
  from assms have "(d @ f # rest, c) \<in> set fs" by (rule map_of_SomeD)
  then show ?thesis
    unfolding isDirectory_def by (force simp: strict_prefix_def)
qed

lemma existsSync_entry:
  assumes "map_of fs (d @ rest) = Some c"
  shows "existsSync fs d"
proof -
  from assms have "(d @ rest, c) \<in> set fs" by (rule map_of_SomeD)
  then show ?thesis
    unfolding existsSync_def by force
qed

lemma set_FileStorage_list:
  "set (FileStorage_list cfg fs flt) =
     (if storage_lifespan cfg = Project
      then {a. \<exists>f. endsWith f ''.json''
                \<and> readFileSync fs (join [basePath cfg, ''project''] @ [f]) = Some (JsonText a)
                \<and> (case flt of None \<Rightarrow> True | Some g \<Rightarrow> FileStorage_matchesFilter a g)}
      else {a. \<exists>s f. endsWith f ''.json''
                \<and> readFileSync fs
                     (join [basePath cfg, lifespan_name (storage_lifespan cfg)] @ [s, f])
                    = Some (JsonText a)
                \<and> (case flt of None \<Rightarrow> True | Some g \<Rightarrow> FileStorage_matchesFilter a g)})"
proof (cases "storage_lifespan cfg = Project")
  case True
  define dir where "dir = join [basePath cfg, ''project'']"
  have "set (FileStorage_list cfg fs flt)
      = {a. \<exists>f. endsWith f ''.json'' \<and> readFileSync fs (dir @ [f]) = Some (JsonText a)
              \<and> (case flt of None \<Rightarrow> True | Some g \<Rightarrow> FileStorage_matchesFilter a g)}"
    (is "?L = ?R")
  proof (intro equalityI subsetI)
    fix a assume "a \<in> ?L"
    then show "a \<in> ?R"
      using True
      by (auto simp: FileStorage_list_def set_read_agents dir_def Let_def split: if_splits)
  next
    fix a assume "a \<in> ?R"
    then obtain f where sf: "endsWith f ''.json''"
        "map_of fs (dir @ [f]) = Some (File (JsonText a))"
        "(case flt of None \<Rightarrow> True | Some g \<Rightarrow> FileStorage_matchesFilter a g)"
      by (auto simp: readFileSync_Some)
    have e: "existsSync fs dir" using existsSync_entry [of fs dir "[f]"] sf by simp
    have d1: "f \<in> set (readdirSync fs dir)"
      using readdirSync_entry [of fs dir f "[]"] sf by simp
    show "a \<in> ?L"
      using True e d1 sf
      by (auto simp: FileStorage_list_def set_read_agents dir_def [symmetric] Let_def
          readFileSync_Some intro!: bexI [of _ f])
  qed
  with True show ?thesis by (simp add: dir_def)
next
  case False
  define dir where "dir = join [basePath cfg, lifespan_name (storage_lifespan cfg)]"
  have "set (FileStorage_list cfg fs flt)
      = {a. \<exists>s f. endsWith f ''.json'' \<and> readFileSync fs (dir @ [s, f]) = Some (JsonText a)
              \<and> (case flt of None \<Rightarrow> True | Some g \<Rightarrow> FileStorage_matchesFilter a g)}"
    (is "?L = ?R")
  proof (intro equalityI subsetI)
    fix a assume "a \<in> ?L"
    then show "a \<in> ?R"
      using False
      by (auto simp: FileStorage_list_def set_read_agents dir_def Let_def split: if_splits)
  next
    fix a assume "a \<in> ?R"
    then obtain s f where sf: "endsWith f ''.json''"
        "map_of fs (dir @ [s, f]) = Some (File (JsonText a))"
        "(case flt of None \<Rightarrow> True | Some g \<Rightarrow> FileStorage_matchesFilter a g)"
      by (auto simp: readFileSync_Some)
    have e: "existsSync fs dir" using existsSync_entry [of fs dir "[s, f]"] sf by simp
    have d1: "s \<in> set (readdirSync fs dir)"
      using readdirSync_entry [of fs dir s "[f]"] sf by simp
    have d2: "isDirectory fs (dir @ [s])"
      using isDirectory_entry [of fs "dir @ [s]" f "[]"] sf by simp
    have d3: "f \<in> set (readdirSync fs (dir @ [s]))"
      using readdirSync_entry [of fs "dir @ [s]" f "[]"] sf by simp
    show "a \<in> ?L"
      using False e d1 d2 d3 sf
      by (auto simp: FileStorage_list_def set_read_agents dir_def [symmetric] Let_def
          readFileSync_Some intro!: bexI [of _ s] bexI [of _ f])
  qed
  with False show ?thesis by (simp add: dir_def)
qed

text \<open>
  Claim C7. For every state of the disk, \<^verbatim>\<open>list\<close> without a filter returns exactly the
  records of the \<^verbatim>\<open>.json\<close> files in the scope directories (in the project directory for
  the project store) that parse; the function is total, so no error is raised. A file
  that does not parse is passed over: with such a file at a path the listing is the
  same as with no file there.
\<close>

theorem FileStorage_list_skips_unparseable:
  "set (FileStorage_list cfg fs None) =
     (if storage_lifespan cfg = Project
      then {a. \<exists>f. endsWith f ''.json''
                \<and> readFileSync fs (join [basePath cfg, ''project''] @ [f]) = Some (JsonText a)}
      else {a. \<exists>s f. endsWith f ''.json''
                \<and> readFileSync fs
                     (join [basePath cfg, lifespan_name (storage_lifespan cfg)] @ [s, f])
                    = Some (JsonText a)})
   \<and> set (FileStorage_list cfg (writeFileSync fs p (Malformed t)) None)
       = set (FileStorage_list cfg (unlinkSync fs p) None)"
proof -
  have "readFileSync (writeFileSync fs p (Malformed t)) q = Some (JsonText a)
      \<longleftrightarrow> readFileSync (unlinkSync fs p) q = Some (JsonText a)" for q a
    by (simp add: readFileSync_Some writeFileSync_def unlinkSync_def update_conv' delete_conv')
  then show ?thesis
    by (simp add: set_FileStorage_list)
qed

text \<open>
  The session directory \<open>S1\<close> with the document \<open>shadow.json\<close> and the unparseable
  \<open>broken.json\<close> lists what the directory with \<open>shadow.json\<close> alone lists.
\<close>

theorem FileStorage_list_skips_unparseable_witness:
  "set (FileStorage_list \<lparr>basePath = ''.agent/agents'', storage_lifespan = Session\<rparr>
          damaged_disk None)
     = set (FileStorage_list \<lparr>basePath = ''.agent/agents'', storage_lifespan = Session\<rparr>
          [([''.agent'', ''agents'', ''session'', ''S1'', ''shadow.json''],
            File (JsonText sample_agent))]
          None)"
  using FileStorage_list_skips_unparseable
    [of "\<lparr>basePath = ''.agent/agents'', storage_lifespan = Session\<rparr>"
        "[([''.agent'', ''agents'', ''session'', ''S1'', ''shadow.json''],
           File (JsonText sample_agent))]"
        "[''.agent'', ''agents'', ''session'', ''S1'', ''broken.json'']" "''{ agentId: uuid-''"]
  by (simp add: damaged_disk_def writeFileSync_def unlinkSync_def)

lemma damaged_disk_list:
  "FileStorage_list \<lparr>basePath = ''.agent/agents'', storage_lifespan = Session\<rparr> damaged_disk None
     = [sample_agent]"
  by code_simp


section \<open>Bulk deletion in the durable backend\<close>











section \<open>Bulk deletion in the volatile backend\<close>




lemma memory_ok_entry:
  assumes "memory_ok m" "(k, a) \<in> set (agents m)"
  shows "k \<noteq> []" "agentId a = k" "nameIndex m (getNameKey (name a) (scope a)) = Some k"
  using assms by (auto simp: memory_ok_def list_all_iff)



section \<open>Workflow completion\<close>





section \<open>Disposal by scope\<close>






section \<open>States that create and resume reach have the layout\<close>

text \<open>
  The fresh registry satisfies \<open>memory_ok\<close> and \<open>disk_ok\<close>. \<^verbatim>\<open>create\<close> keeps both when the
  generated id is new and not empty and, for a durable lifespan, the store can write
  the document (\<open>writable\<close>) and the metadata can be serialized. \<^verbatim>\<open>resume\<close> keeps both
  when the name holds no separator and the scope is a single path segment, whether its
  \<^verbatim>\<open>save\<close> throws or not. The statements above on disposal return states that satisfy
  both again.
\<close>

lemma fresh_registry_ok:
  "memory_ok (memoryStorage fresh_registry)"
  "disk_ok (storagePath fresh_registry) (disk fresh_registry)"
  by (simp_all add: memory_ok_def disk_ok_def fresh_registry_def)

lemma MemoryStorage_found:
  assumes ok: "memory_ok m" and found: "MemoryStorage_findByNameAndScope m nm sc = Some a"
  shows "(agentId a, a) \<in> set (agents m)"
    and "nameIndex m (getNameKey nm sc) = Some (agentId a)"
proof -
  from found obtain aid where aid: "nameIndex m (getNameKey nm sc) = Some aid"
      "map_of (agents m) aid = Some a"
    by (auto simp: MemoryStorage_findByNameAndScope_def split: option.splits if_splits)
  then have in_a: "(aid, a) \<in> set (agents m)" by (simp add: map_of_SomeD)
  with memory_ok_entry(2) [OF ok] have "agentId a = aid" by simp
  with in_a aid show "(agentId a, a) \<in> set (agents m)"
    and "nameIndex m (getNameKey nm sc) = Some (agentId a)" by simp_all
qed

lemma memory_ok_save_new:
  assumes ok: "memory_ok m"
    and fresh: "agentId a \<noteq> []" "agentId a \<notin> fst ` set (agents m)"
    and absent: "MemoryStorage_findByNameAndScope m (name a) (scope a) = None"
  shows "memory_ok (MemoryStorage_save m a)"
proof -
  have dist: "distinct (map fst (agents m))" using ok by (simp add: memory_ok_def)
  have other: "getNameKey (name b) (scope b) \<noteq> getNameKey (name a) (scope a)"
    if "(k, b) \<in> set (agents m)" for k b
  proof
    assume "getNameKey (name b) (scope b) = getNameKey (name a) (scope a)"
    with memory_ok_entry [OF ok that] have "nameIndex m (getNameKey (name a) (scope a)) = Some k"
      "k \<noteq> []" by simp_all
    moreover from that dist have "map_of (agents m) k = Some b" by simp
    ultimately show False
      using absent by (simp add: MemoryStorage_findByNameAndScope_def)
  qed
  have "k \<noteq> [] \<and> agentId b = k
      \<and> nameIndex (MemoryStorage_save m a) (getNameKey (name b) (scope b)) = Some k"
    if "(k, b) \<in> set (agents (MemoryStorage_save m a))" for k b
  proof -
    from that have "(k = agentId a \<and> b = a) \<or> ((k, b) \<in> set (agents m) \<and> k \<noteq> agentId a)"
      using set_update_cases [of k b "agentId a" a "agents m"] fresh(2)
      by (force simp: MemoryStorage_save_def)
    then show ?thesis
    proof
      assume "k = agentId a \<and> b = a"
      with fresh show ?thesis by (simp add: MemoryStorage_save_def)
    next
      assume old: "(k, b) \<in> set (agents m) \<and> k \<noteq> agentId a"
      with other [of k b] memory_ok_entry [OF ok, of k b] show ?thesis
        by (simp add: MemoryStorage_save_def)
    qed
  qed
  moreover have "distinct (map fst (agents (MemoryStorage_save m a)))"
    using dist by (simp add: MemoryStorage_save_def distinct_update)
  ultimately show ?thesis
    by (auto simp: memory_ok_def list_all_iff)
qed

lemma memory_ok_save_found:
  assumes ok: "memory_ok m"
    and found: "MemoryStorage_findByNameAndScope m nm sc = Some a"
    and same: "agentId a' = agentId a" "name a' = name a" "scope a' = scope a"
  shows "memory_ok (MemoryStorage_save m a')"
proof -
  have dist: "distinct (map fst (agents m))" using ok by (simp add: memory_ok_def)
  note in_a = MemoryStorage_found(1) [OF ok found]
  have idx: "nameIndex (MemoryStorage_save m a') = nameIndex m"
    using memory_ok_entry(3) [OF ok in_a] same
    by (auto simp: MemoryStorage_save_def fun_eq_iff)
  have "k \<noteq> [] \<and> agentId b = k
      \<and> nameIndex (MemoryStorage_save m a') (getNameKey (name b) (scope b)) = Some k"
    if "(k, b) \<in> set (agents (MemoryStorage_save m a'))" for k b
  proof -
    from that have "(k = agentId a \<and> b = a') \<or> (k, b) \<in> set (agents m)"
      using set_update_cases [of k b "agentId a" a' "agents m"] same
      by (simp add: MemoryStorage_save_def)
    then show ?thesis
    proof
      assume "k = agentId a \<and> b = a'"
      with memory_ok_entry [OF ok in_a] same show ?thesis by (simp add: idx)
    next
      assume "(k, b) \<in> set (agents m)"
      with memory_ok_entry [OF ok, of k b] show ?thesis by (simp add: idx)
    qed
  qed
  moreover have "distinct (map fst (agents (MemoryStorage_save m a')))"
    using dist by (simp add: MemoryStorage_save_def distinct_update)
  ultimately show ?thesis
    by (auto simp: memory_ok_def list_all_iff)
qed

lemma getStorage_file:
  assumes "getStorage (Some ls) = Inr st"
  shows "st = FileRef Session \<longleftrightarrow> ls = ''session''"
    and "st = FileRef Workflow \<longleftrightarrow> ls = ''workflow''"
  using assms by (auto simp: getStorage_def split: if_splits)


lemma storage_save_new_ok:
  assumes ok: "memory_ok (memoryStorage reg)" "disk_ok (storagePath reg) (disk reg)"
    and fresh: "agentId a \<noteq> []" "agentId a \<notin> fst ` set (agents (memoryStorage reg))"
    and absent: "storage_findByNameAndScope reg st (name a) (scope a) = None"
    and w: "\<forall>ls. st = FileRef ls \<longrightarrow>
             writable (storagePath reg) (disk reg) ls (name a) (scope a)
             \<and> serializable (JObj (metadata a))"
  shows "fst (storage_save reg st a) = None
       \<and> memory_ok (memoryStorage (snd (storage_save reg st a)))
       \<and> disk_ok (storagePath reg) (disk (snd (storage_save reg st a)))
       \<and> storagePath (snd (storage_save reg st a)) = storagePath reg"
proof (cases st)
  case MemoryRef
  with ok fresh absent show ?thesis
    by (simp add: storage_save_def storage_findByNameAndScope_def memory_ok_save_new)
next
  case (FileRef ls)
  with w have wr: "writable (storagePath reg) (disk reg) ls (name a) (scope a)"
    and s: "serializable (JObj (metadata a))" by simp_all
  from writable_after_write [OF wr, of "a\<lparr>metadata := json_members (metadata a)\<rparr>"]
  have "disk_ok (storagePath reg)
      (writeFileSync (disk reg)
         (getAgentPath \<lparr>basePath = storagePath reg, storage_lifespan = ls\<rparr> a)
         (JsonText (a\<lparr>metadata := json_members (metadata a)\<rparr>)))"
    by (simp add: writable_def)
  with ok FileRef FileStorage_save_ok [OF wr s] show ?thesis
    by (simp add: storage_save_def fileStorages_def)
qed

lemma FileStorage_save_cases:
  assumes "existsSync fs (dirname (getAgentPath cfg a))"
  shows "snd (FileStorage_save cfg fs a) = fs
       \<or> snd (FileStorage_save cfg fs a)
           = writeFileSync fs (getAgentPath cfg a)
               (JsonText (a\<lparr>metadata := json_members (metadata a)\<rparr>))"
  using assms
  by (auto simp: FileStorage_save_def Let_def JSON_stringify_def
      split: prod.splits option.splits sum.splits if_splits)

lemma existsSync_parent:
  assumes "(p, n) \<in> set fs"
  shows "existsSync fs (dirname p)"
proof -
  have "prefix (butlast p) p" by (rule prefixeq_butlast)
  with assms show ?thesis
    unfolding existsSync_def dirname_def by force
qed

lemma storage_save_found_ok:
  assumes ok: "memory_ok (memoryStorage reg)" "disk_ok (storagePath reg) (disk reg)"
    and found: "storage_findByNameAndScope reg st nm sc = Some a"
    and same: "agentId a' = agentId a" "name a' = name a" "scope a' = scope a"
    and nm: "CHR ''/'' \<notin> set nm"
    and sc: "st = FileRef Session \<or> st = FileRef Workflow \<longrightarrow> plain sc"
  shows "memory_ok (memoryStorage (snd (storage_save reg st a')))
       \<and> disk_ok (storagePath reg) (disk (snd (storage_save reg st a')))
       \<and> storagePath (snd (storage_save reg st a')) = storagePath reg"
proof (cases st)
  case MemoryRef
  with ok found same show ?thesis
    by (simp add: storage_save_def storage_findByNameAndScope_def memory_ok_save_found)
next
  case (FileRef ls)
  define cfg where "cfg = fileStorages reg ls"
  define q where "q = getAgentPathByNameAndScope cfg nm sc"
  from sc FileRef have pl: "ls = Project \<or> plain sc" by (cases ls) auto
  from found FileRef have "map_of (disk reg) q = Some (File (JsonText a))"
    by (auto simp: storage_findByNameAndScope_def FileStorage_findByNameAndScope_def Let_def
        readFileSync_def JSON_parse_def q_def cfg_def
        split: if_splits option.splits file_content.splits node.splits)
  then have in_q: "(q, File (JsonText a)) \<in> set (disk reg)" by (rule map_of_SomeD)
  then have wp: "well_placed (storagePath reg) (q, File (JsonText a))"
    by (rule disk_ok_entry [OF ok(2)])
  have tier: "in_tier (storagePath reg) ls q"
    using in_tier_plain_path [OF nm pl, of "storagePath reg"]
    by (simp add: q_def cfg_def fileStorages_def)
  have "getAgentPath cfg a = q"
    using well_placed_path [OF wp tier] by (simp add: cfg_def fileStorages_def)
  then have path: "getAgentPath cfg a' = q"
    using getAgentPath_same_key [of a' a cfg] same by simp
  have "disk_ok (storagePath reg)
      (writeFileSync (disk reg) q (JsonText (a'\<lparr>metadata := json_members (metadata a')\<rparr>)))"
    using well_placed_same_key [OF wp, of "a'\<lparr>metadata := json_members (metadata a')\<rparr>"] same
    by (intro disk_ok_write [OF ok(2)]) simp
  moreover have "snd (FileStorage_save cfg (disk reg) a') = disk reg
       \<or> snd (FileStorage_save cfg (disk reg) a')
           = writeFileSync (disk reg) q (JsonText (a'\<lparr>metadata := json_members (metadata a')\<rparr>))"
    using FileStorage_save_cases [of "disk reg" cfg a'] existsSync_parent [OF in_q] path
    by simp
  ultimately have "disk_ok (storagePath reg) (snd (FileStorage_save cfg (disk reg) a'))"
    using ok(2) by auto
  with ok FileRef show ?thesis
    by (simp add: storage_save_def cfg_def case_prod_unfold)
qed

lemma create_keeps_layout:
  assumes ok: "memory_ok (memoryStorage reg)" "disk_ok (storagePath reg) (disk reg)"
    and fresh: "randomUUID d \<noteq> []" "randomUUID d \<notin> fst ` set (agents (memoryStorage reg))"
    and nm: "\<forall>nm. config_name c = Some nm \<longrightarrow> CHR ''/'' \<notin> set nm"
    and sc: "config_lifespan c = Some ''session'' \<or> config_lifespan c = Some ''workflow''
               \<longrightarrow> (\<forall>sc. getScope env c = Some sc \<longrightarrow> plain sc)"
    and w: "\<forall>nm sc ls. config_name c = Some nm \<and> getScope env c = Some sc
               \<and> getStorage (config_lifespan c) = Inr (FileRef ls)
             \<longrightarrow> fits (isAbsolute (storagePath reg))
                   (getAgentPathByNameAndScope (fileStorages reg ls) nm sc)
                 \<and> serializable (JObj (case config_metadata c of Some m \<Rightarrow> m | None \<Rightarrow> []))"
  shows "memory_ok (memoryStorage (snd (create env d reg c)))
       \<and> disk_ok (storagePath reg) (disk (snd (create env d reg c)))
       \<and> storagePath (snd (create env d reg c)) = storagePath reg"
proof (cases "validateConfig c")
  case (Some e)
  with ok show ?thesis by (simp add: create_def)
next
  case None
  show ?thesis
  proof (cases "getStorage (config_lifespan c)")
    case (Inl e)
    with None ok show ?thesis by (simp add: create_def)
  next
    case (Inr st)
    from validated_strings [OF None, of env] obtain n l s where
      c: "config_name c = Some n" "config_lifespan c = Some l" "getScope env c = Some s"
      by blast
    from nm c have n: "CHR ''/'' \<notin> set n" by simp
    from sc c getStorage_file [of l st] Inr
    have s: "st = FileRef Session \<or> st = FileRef Workflow \<longrightarrow> plain s" by auto
    show ?thesis
    proof (cases "storage_findByNameAndScope reg st n s")
      case absent: None
      define a where "a = new_agent d c n l s"
      have "writable (storagePath reg) (disk reg) ls (name a) (scope a)
          \<and> serializable (JObj (metadata a))" if "st = FileRef ls" for ls
      proof -
        from s that have "ls = Project \<or> plain s" by (cases ls) auto
        with w c Inr that ok(2) n new_agent_serializable [of c d n l s] show ?thesis
          by (simp add: writable_def a_def fileStorages_def)
      qed
      then have "fst (storage_save reg st a) = None
          \<and> memory_ok (memoryStorage (snd (storage_save reg st a)))
          \<and> disk_ok (storagePath reg) (disk (snd (storage_save reg st a)))
          \<and> storagePath (snd (storage_save reg st a)) = storagePath reg"
        using fresh absent by (intro storage_save_new_ok ok) (simp_all add: a_def)
      moreover have "snd (create env d reg c) = snd (storage_save reg st a)"
        using None Inr c absent
        by (simp add: create_def Let_def a_def split: prod.splits option.splits)
      ultimately show ?thesis by simp
    next
      case (Some existing)
      define a where "a = existing\<lparr>lastUsedAt := date1 d\<rparr>"
      have "snd (create env d reg c) = snd (storage_save reg st a)"
        using None Inr c Some
        by (simp add: create_def Let_def a_def split: prod.splits option.splits)
      moreover have "memory_ok (memoryStorage (snd (storage_save reg st a)))
          \<and> disk_ok (storagePath reg) (disk (snd (storage_save reg st a)))
          \<and> storagePath (snd (storage_save reg st a)) = storagePath reg"
        using n s by (intro storage_save_found_ok [OF ok Some]) (simp_all add: a_def)
      ultimately show ?thesis by simp
    qed
  qed
qed

text \<open>
  In such a state the workflow probe of an un-scoped \<^verbatim>\<open>resume\<close> finds nothing as long as
  the name holds no separator.
\<close>

lemma workflow_empty_scope_absent:
  assumes ok: "disk_ok base fs" and nm: "CHR ''/'' \<notin> set nm"
  shows "FileStorage_findByNameAndScope \<lparr>basePath = base, storage_lifespan = Workflow\<rparr> fs nm [] = None"
proof -
  define q where "q = storage_root base @ [''workflow'', nm @ ''.json'']"
  have "join [base, ''workflow'', [], nm @ ''.json''] = join [base, ''workflow'', nm @ ''.json'']"
    by (simp add: join_def)
  also have "\<dots> = q"
    unfolding q_def using plain_json_file [OF nm] by (intro join_under_root) simp
  finally have path: "getAgentPathByNameAndScope \<lparr>basePath = base, storage_lifespan = Workflow\<rparr> nm [] = q"
    by (simp add: getAgentPathByNameAndScope_def)
  have "map_of fs q = None"
  proof (rule ccontr)
    assume "map_of fs q \<noteq> None"
    then obtain c where "(q, c) \<in> set fs" by (auto dest: map_of_SomeD)
    from disk_ok_entry [OF ok this] show False
      by (cases rule: well_placed_cases) (simp_all add: q_def)
  qed
  with path show ?thesis
    by (simp add: FileStorage_findByNameAndScope_def readFileSync_def Let_def)
qed


lemma resume_probe_keeps_layout:
  assumes ok: "memory_ok (memoryStorage reg)" "disk_ok (storagePath reg) (disk reg)"
    and nm: "CHR ''/'' \<notin> set nm"
    and probes: "\<forall>(l, st)\<in>set ps. st = FileRef Session \<or> st = FileRef Workflow \<longrightarrow>
        plain (case sc of Some s \<Rightarrow> s | None \<Rightarrow> getDefaultScope env l)
        \<or> storage_findByNameAndScope reg st nm
             (case sc of Some s \<Rightarrow> s | None \<Rightarrow> getDefaultScope env l) = None"
  shows "memory_ok (memoryStorage (snd (resume_probe env now reg nm sc ps)))
       \<and> disk_ok (storagePath reg) (disk (snd (resume_probe env now reg nm sc ps)))
       \<and> storagePath (snd (resume_probe env now reg nm sc ps)) = storagePath reg"
  using probes
proof (induction ps)
  case Nil
  with ok show ?case by simp
next
  case (Cons p ps)
  obtain l st where p: "p = (l, st)" by (cases p)
  define s where "s = (case sc of Some s \<Rightarrow> s | None \<Rightarrow> getDefaultScope env l)"
  show ?case
  proof (cases "storage_findByNameAndScope reg st nm s")
    case None
    with Cons p show ?thesis by (simp add: s_def [symmetric] Let_def)
  next
    case (Some a)
    define a' where "a' = a\<lparr>lastUsedAt := now, turnCount := turnCount a + 1\<rparr>"
    from Cons.prems p Some have pl: "st = FileRef Session \<or> st = FileRef Workflow \<longrightarrow> plain s"
      by (auto simp: s_def)
    have "snd (resume_probe env now reg nm sc (p # ps)) = snd (storage_save reg st a')"
      using Some p
      by (simp add: s_def [symmetric] Let_def a'_def split: prod.splits option.splits)
    moreover have "memory_ok (memoryStorage (snd (storage_save reg st a')))
        \<and> disk_ok (storagePath reg) (disk (snd (storage_save reg st a')))
        \<and> storagePath (snd (storage_save reg st a')) = storagePath reg"
      using nm pl by (intro storage_save_found_ok [OF ok Some]) (simp_all add: a'_def)
    ultimately show ?thesis by simp
  qed
qed

lemma resume_keeps_layout:
  assumes ok: "memory_ok (memoryStorage reg)" "disk_ok (storagePath reg) (disk reg)"
    and nm: "CHR ''/'' \<notin> set nm"
    and sc: "plain (case sc of Some s \<Rightarrow> s | None \<Rightarrow> getDefaultScope env ''session'')"
  shows "memory_ok (memoryStorage (snd (resume env now reg nm sc)))
       \<and> disk_ok (storagePath reg) (disk (snd (resume env now reg nm sc)))
       \<and> storagePath (snd (resume env now reg nm sc)) = storagePath reg"
  unfolding resume_def
proof (rule resume_probe_keeps_layout [OF ok nm])
  have "storage_findByNameAndScope reg (FileRef Workflow) nm (getDefaultScope env ''workflow'') = None"
    using workflow_empty_scope_absent [OF ok(2) nm]
    by (simp add: storage_findByNameAndScope_def fileStorages_def getDefaultScope_def)
  with sc show "\<forall>(l, st)\<in>set [(''turn'', MemoryRef), (''context'', MemoryRef),
        (''session'', FileRef Session), (''workflow'', FileRef Workflow),
        (''project'', FileRef Project)].
      st = FileRef Session \<or> st = FileRef Workflow \<longrightarrow>
        plain (case sc of Some s \<Rightarrow> s | None \<Rightarrow> getDefaultScope env l)
        \<or> storage_findByNameAndScope reg st nm
             (case sc of Some s \<Rightarrow> s | None \<Rightarrow> getDefaultScope env l) = None"
    by (cases sc) simp_all
qed

end
